theory Spec2Isabelle
  imports Main "HOL-Library.AList" "HOL-Library.Multiset" "HOL-Library.Sublist"
begin

section \<open>Data model\<close>

text \<open>
  The energy types of the game API. The enumeration is numeric in the source and
  \<open>Any\<close> is its zero, so \<open>Any\<close> is the only falsy energy type.
\<close>

datatype DestinyEnergyType = Any | Arc | Thermal | Void | Ghost | Subclass | Stasis

text \<open>
  \<open>mod.plug.energyCost\<close>: an optional record of a cost and an energy type. Energy
  costs and capacities are JavaScript numbers that hold non-negative integers, so they
  are natural numbers here; the score of \<open>calculateEnergyChange\<close> subtracts them and is an
  integer.
\<close>

record DestinyEnergyCostEntry =
  energyCost :: nat
  energyType :: DestinyEnergyType

record DestinyItemPlugDefinition =
  plugCategoryHash :: nat
  plugEnergyCost :: "DestinyEnergyCostEntry option"

record PluggableInventoryItemDefinition =
  hash :: nat
  plug :: DestinyItemPlugDefinition

text \<open>\<open>item.energy\<close> of an armour piece, optional as well.\<close>

record DimEnergy =
  energyCapacity :: nat
  dimEnergyType :: DestinyEnergyType

record DimItem =
  itemId :: string
  bucketHash :: nat
  energy :: "DimEnergy option"

record ModSocketMetadata =
  compatibleModTags :: "string list"

record ItemEnergy =
  used :: nat
  originalCapacity :: nat
  derivedCapacity :: nat
  originalType :: DestinyEnergyType
  derivedType :: DestinyEnergyType

record ModAssignments =
  assigned :: "PluggableInventoryItemDefinition list"
  unassigned :: "PluggableInventoryItemDefinition list"

text \<open>
  A JavaScript \<open>Map\<close> keyed by item id: an association list in insertion order.
  \<open>Map.set\<close> is \<^const>\<open>AList.update\<close> (an existing key keeps its place and takes the
  new value, a new key goes last) and \<open>Map.get\<close> is \<^const>\<open>map_of\<close>.
\<close>

type_synonym AssignmentMap = "(string \<times> ModAssignments) list"

text \<open>
  The functions and tables the module imports from the rest of the application. None of
  them is defined in the module, so they are parameters of the model: the manifest
  type \<open>'defs\<close> is opaque, the spend tier is its numeric enumeration value.
\<close>

record 'defs Collaborators =
  upgradeSpendTierToMaxEnergy :: "'defs \<Rightarrow> nat \<Rightarrow> DimItem \<Rightarrow> nat"
  getItemEnergyType ::
    "'defs \<Rightarrow> DimItem \<Rightarrow> nat \<Rightarrow> bool \<Rightarrow> PluggableInventoryItemDefinition list \<Rightarrow> DestinyEnergyType"
  isModEnergyValid ::
    "ItemEnergy \<Rightarrow> PluggableInventoryItemDefinition \<Rightarrow> PluggableInventoryItemDefinition list \<Rightarrow> bool"
  generateModPermutations ::
    "PluggableInventoryItemDefinition list \<Rightarrow> PluggableInventoryItemDefinition option list list"
  getModTypeTagByPlugCategoryHash :: "nat \<Rightarrow> string option"
  getSpecialtySocketMetadatas :: "DimItem \<Rightarrow> ModSocketMetadata list option"
  armor2General :: nat
  combatCompatiblePlugCategoryHashes :: "nat list"
  activityModPlugCategoryHashes :: "nat list"
  bucketsToCategories :: "nat \<Rightarrow> nat option"

datatype error = TypeError

section \<open>Energy helpers\<close>

text \<open>\<open>mod.plug.energyCost?.energyCost || 0\<close>\<close>

definition modCostOf :: "PluggableInventoryItemDefinition \<Rightarrow> nat" where
  "modCostOf m = (case plugEnergyCost (plug m) of None \<Rightarrow> 0 | Some c \<Rightarrow> energyCost c)"

text \<open>\<open>mod.plug.energyCost?.energyType || DestinyEnergyType.Any\<close>\<close>

definition modEnergyTypeOf :: "PluggableInventoryItemDefinition \<Rightarrow> DestinyEnergyType" where
  "modEnergyTypeOf m = (case plugEnergyCost (plug m) of None \<Rightarrow> Any | Some c \<Rightarrow> energyType c)"

text \<open>\<open>_.sumBy(mods, (mod) => mod.plug.energyCost?.energyCost || 0)\<close>\<close>

definition sumBy :: "PluggableInventoryItemDefinition list \<Rightarrow> nat" where
  "sumBy ms = sum_list (map modCostOf ms)"

definition buildItemEnergy ::
  "'defs Collaborators \<Rightarrow> 'defs \<Rightarrow> DimItem \<Rightarrow> PluggableInventoryItemDefinition list \<Rightarrow> nat \<Rightarrow> bool
    \<Rightarrow> ItemEnergy" where
  "buildItemEnergy K defs item assignedMods upgradeSpendTier lockItemEnergyType =
     \<lparr> used = sumBy assignedMods,
       originalCapacity = (case energy item of None \<Rightarrow> 0 | Some e \<Rightarrow> energyCapacity e),
       derivedCapacity = upgradeSpendTierToMaxEnergy K defs upgradeSpendTier item,
       originalType = (case energy item of None \<Rightarrow> Any | Some e \<Rightarrow> dimEnergyType e),
       derivedType = getItemEnergyType K defs item upgradeSpendTier lockItemEnergyType assignedMods \<rparr>"

definition isBucketSpecificModValid ::
  "'defs Collaborators \<Rightarrow> 'defs \<Rightarrow> nat \<Rightarrow> bool \<Rightarrow> DimItem \<Rightarrow> PluggableInventoryItemDefinition
    \<Rightarrow> PluggableInventoryItemDefinition list \<Rightarrow> bool" where
  "isBucketSpecificModValid K defs upgradeSpendTier lockItemEnergyType item m assignedMods =
     (let itemEnergyCapacity = upgradeSpendTierToMaxEnergy K defs upgradeSpendTier item;
          itemEnergyType = getItemEnergyType K defs item upgradeSpendTier lockItemEnergyType assignedMods;
          energyUsed = sumBy assignedMods;
          modCost = modCostOf m;
          modEnergyType = modEnergyTypeOf m;
          energyTypeIsValid =
            (modEnergyType = itemEnergyType \<or> modEnergyType = Any \<or> itemEnergyType = Any)
      in energyTypeIsValid \<and> energyUsed + modCost \<le> itemEnergyCapacity)"

text \<open>
  The two tag predicates return a JavaScript value that the caller only tests for
  truthiness; the model returns that truth value. A tag that is \<open>undefined\<close> or the
  empty string is falsy, and \<open>itemSocketMetadata?.some(...)\<close> is \<open>undefined\<close> when the
  metadata is.
\<close>

definition tagFits :: "string option \<Rightarrow> ModSocketMetadata list option \<Rightarrow> bool" where
  "tagFits modTag itemSocketMetadata =
     (case modTag of
        None \<Rightarrow> False
      | Some t \<Rightarrow> t \<noteq> [] \<and>
          (case itemSocketMetadata of
             None \<Rightarrow> False
           | Some mds \<Rightarrow> list_ex (\<lambda>metadata. t \<in> set (compatibleModTags metadata)) mds))"

definition isActivityModValid ::
  "'defs Collaborators \<Rightarrow> PluggableInventoryItemDefinition \<Rightarrow> ModSocketMetadata list option
    \<Rightarrow> ItemEnergy \<Rightarrow> bool" where
  "isActivityModValid K activityMod itemSocketMetadata itemEnergy =
     (let modTag = getModTypeTagByPlugCategoryHash K (plugCategoryHash (plug activityMod))
      in isModEnergyValid K itemEnergy activityMod [] \<and> tagFits modTag itemSocketMetadata)"

definition isCombatModValid ::
  "'defs Collaborators \<Rightarrow> PluggableInventoryItemDefinition \<Rightarrow> PluggableInventoryItemDefinition list
    \<Rightarrow> ModSocketMetadata list option \<Rightarrow> ItemEnergy \<Rightarrow> bool" where
  "isCombatModValid K combatMod assignedMods itemSocketMetadata itemEnergy =
     (let modTag = getModTypeTagByPlugCategoryHash K (plugCategoryHash (plug combatMod))
      in isModEnergyValid K itemEnergy combatMod assignedMods \<and> tagFits modTag itemSocketMetadata)"

text \<open>
  The scan of \<open>calculateEnergyChange\<close>: it stops at the first mod once the energy is
  no longer \<open>Any\<close>, and adopts a mod's energy type only when that type is truthy.
\<close>

fun finalEnergyLoop ::
  "DestinyEnergyType \<Rightarrow> PluggableInventoryItemDefinition list \<Rightarrow> DestinyEnergyType" where
  "finalEnergyLoop finalEnergy [] = finalEnergy"
| "finalEnergyLoop finalEnergy (m # ms) =
     (if finalEnergy \<noteq> Any then finalEnergy
      else (case plugEnergyCost (plug m) of
              None \<Rightarrow> finalEnergyLoop finalEnergy ms
            | Some c \<Rightarrow>
                if energyType c \<noteq> Any then finalEnergyLoop (energyType c) ms
                else finalEnergyLoop finalEnergy ms))"

definition calculateEnergyChange ::
  "ItemEnergy \<Rightarrow> PluggableInventoryItemDefinition list \<Rightarrow> int" where
  "calculateEnergyChange itemEnergy assignedMods =
     (let finalEnergy = finalEnergyLoop (derivedType itemEnergy) assignedMods;
          modCost = used itemEnergy + sumBy assignedMods;
          energyUsedAndWasted = int modCost + int (originalCapacity itemEnergy);
          energyInvested = max 0 (int modCost - int (originalCapacity itemEnergy))
      in if finalEnergy = originalType itemEnergy \<or> finalEnergy = Any
         then energyInvested else energyUsedAndWasted)"

section \<open>The search over permutation triples\<close>

text \<open>
  \<open>_.keyBy(items, (item) => item.id)\<close> builds an object with one property per id, a
  later item replacing an earlier one of the same id; \<open>_.mapValues\<close> maps its values.
  Reading a property that was never set gives \<open>undefined\<close>, here \<open>None\<close>.
\<close>

definition keyBy :: "DimItem list \<Rightarrow> (string \<rightharpoonup> DimItem)" where
  "keyBy items = foldl (\<lambda>obj item. obj(itemId item \<mapsto> item)) Map.empty items"

definition mapValues :: "('k \<rightharpoonup> 'a) \<Rightarrow> ('a \<Rightarrow> 'b) \<Rightarrow> ('k \<rightharpoonup> 'b)" where
  "mapValues obj f = (\<lambda>k. map_option f (obj k))"

text \<open>
  \<open>itemSocketMetadata[item.id]\<close>: \<open>undefined\<close> when the id is missing or when the item
  has no specialty socket metadata.
\<close>

definition socketMetadataAt ::
  "(string \<rightharpoonup> ModSocketMetadata list option) \<Rightarrow> string \<Rightarrow> ModSocketMetadata list option" where
  "socketMetadataAt obj k = (case obj k of None \<Rightarrow> None | Some v \<Rightarrow> v)"

text \<open>
  \<open>permutation[i]\<close>: a mod, or a falsy value, which is either the \<open>null\<close> padding of
  the permutation or the \<open>undefined\<close> of an index past its end.
\<close>

definition permutationAt :: "'a option list \<Rightarrow> nat \<Rightarrow> 'a option" where
  "permutationAt p i = (if i < length p then p ! i else None)"

text \<open>
  The body of the loop over the items, up to the test for early abandonment, for an
  item whose energy record is known.
\<close>

definition evalSlot ::
  "'defs Collaborators \<Rightarrow> ItemEnergy \<Rightarrow> ModSocketMetadata list option
    \<Rightarrow> PluggableInventoryItemDefinition option \<Rightarrow> PluggableInventoryItemDefinition option
    \<Rightarrow> PluggableInventoryItemDefinition option \<Rightarrow> ModAssignments" where
  "evalSlot K itemEnergy itemSocketMetadata activityMod combatMod generalMod =
     (let r0 = \<lparr> assigned = [], unassigned = [] \<rparr>;
          r1 = (case activityMod of
                  None \<Rightarrow> r0
                | Some m \<Rightarrow>
                    if isActivityModValid K m itemSocketMetadata itemEnergy
                    then r0\<lparr> assigned := assigned r0 @ [m] \<rparr>
                    else r0\<lparr> unassigned := unassigned r0 @ [m] \<rparr>);
          r2 = (case combatMod of
                  None \<Rightarrow> r1
                | Some m \<Rightarrow>
                    if isCombatModValid K m (assigned r1) itemSocketMetadata itemEnergy
                    then r1\<lparr> assigned := assigned r1 @ [m] \<rparr>
                    else r1\<lparr> unassigned := unassigned r1 @ [m] \<rparr>);
          r3 = (case generalMod of
                  None \<Rightarrow> r2
                | Some m \<Rightarrow>
                    if isModEnergyValid K itemEnergy m (assigned r2)
                    then r2\<lparr> assigned := assigned r2 @ [m] \<rparr>
                    else r2\<lparr> unassigned := unassigned r2 @ [m] \<rparr>)
      in r3)"

text \<open>
  \<open>itemEnergies[item.id]\<close> may be \<open>undefined\<close>. The loop body hands it to a validity
  predicate only when a mod stands at the position; a predicate that reads a field of
  \<open>undefined\<close> throws a \<open>TypeError\<close>. With no mod at the position nothing is read.
\<close>

definition evalSlotChecked ::
  "'defs Collaborators \<Rightarrow> ItemEnergy option \<Rightarrow> ModSocketMetadata list option
    \<Rightarrow> PluggableInventoryItemDefinition option \<Rightarrow> PluggableInventoryItemDefinition option
    \<Rightarrow> PluggableInventoryItemDefinition option \<Rightarrow> error + ModAssignments" where
  "evalSlotChecked K itemEnergy itemSocketMetadata activityMod combatMod generalMod =
     (case itemEnergy of
        Some e \<Rightarrow> Inr (evalSlot K e itemSocketMetadata activityMod combatMod generalMod)
      | None \<Rightarrow>
          if activityMod = None \<and> combatMod = None \<and> generalMod = None
          then Inr \<lparr> assigned = [], unassigned = [] \<rparr>
          else Inl TypeError)"

text \<open>
  The loop \<open>for (let i = 0; i < items.length; i++)\<close> of one triple. The arguments are
  the best unassigned count so far, the items from position \<open>i\<close> on, \<open>i\<close>, the running
  \<open>unassignedModCount\<close> and the \<open>assignments\<close> map. \<open>Inr None\<close> is
  \<open>continue modLoop\<close>.
\<close>

fun slotLoop ::
  "'defs Collaborators \<Rightarrow> (string \<rightharpoonup> ItemEnergy) \<Rightarrow> (string \<rightharpoonup> ModSocketMetadata list option)
    \<Rightarrow> PluggableInventoryItemDefinition option list \<Rightarrow> PluggableInventoryItemDefinition option list
    \<Rightarrow> PluggableInventoryItemDefinition option list \<Rightarrow> nat
    \<Rightarrow> DimItem list \<Rightarrow> nat \<Rightarrow> nat \<Rightarrow> AssignmentMap \<Rightarrow> error + (nat \<times> AssignmentMap) option" where
  "slotLoop K itemEnergies itemSocketMetadata activityPermutation combatPermutation
      generalPermutation assignmentUnassignedModCount [] i unassignedModCount assignments =
     Inr (Some (unassignedModCount, assignments))"
| "slotLoop K itemEnergies itemSocketMetadata activityPermutation combatPermutation
      generalPermutation assignmentUnassignedModCount (item # rest) i unassignedModCount assignments =
     (case evalSlotChecked K (itemEnergies (itemId item))
             (socketMetadataAt itemSocketMetadata (itemId item))
             (permutationAt activityPermutation i) (permutationAt combatPermutation i)
             (permutationAt generalPermutation i) of
        Inl e \<Rightarrow> Inl e
      | Inr r \<Rightarrow>
          if unassignedModCount + length (unassigned r) > assignmentUnassignedModCount
          then Inr None
          else slotLoop K itemEnergies itemSocketMetadata activityPermutation combatPermutation
                 generalPermutation assignmentUnassignedModCount rest (Suc i)
                 (unassignedModCount + length (unassigned r))
                 (AList.update (itemId item) r assignments))"

text \<open>
  \<open>for (const [itemId, { assigned }] of assignments)\<close>, adding up the energy changes;
  \<open>calculateEnergyChange\<close> reads \<open>itemEnergy.derivedType\<close> first, which throws on
  \<open>undefined\<close>.
\<close>

fun scoreLoop :: "(string \<rightharpoonup> ItemEnergy) \<Rightarrow> AssignmentMap \<Rightarrow> int \<Rightarrow> error + int" where
  "scoreLoop itemEnergies [] energyUsedAndWasted = Inr energyUsedAndWasted"
| "scoreLoop itemEnergies ((k, a) # rest) energyUsedAndWasted =
     (case itemEnergies k of
        None \<Rightarrow> Inl TypeError
      | Some e \<Rightarrow>
          scoreLoop itemEnergies rest (energyUsedAndWasted + calculateEnergyChange e (assigned a)))"

text \<open>The only mutable state of the search.\<close>

record SearchState =
  bucketIndependentAssignments :: AssignmentMap
  assignmentEnergyCost :: int
  assignmentUnassignedModCount :: nat

text \<open>The test that guards the replacement of the best assignment so far.\<close>

definition isImprovement :: "nat \<Rightarrow> int \<Rightarrow> SearchState \<Rightarrow> bool" where
  "isImprovement unassignedModCount energyUsedAndWasted best =
     (unassignedModCount < assignmentUnassignedModCount best \<or>
      (unassignedModCount \<le> assignmentUnassignedModCount best \<and>
       energyUsedAndWasted < assignmentEnergyCost best))"

text \<open>The body of \<open>modLoop\<close>: one triple of permutations against the best so far.\<close>

definition tripleStep ::
  "'defs Collaborators \<Rightarrow> (string \<rightharpoonup> ItemEnergy) \<Rightarrow> (string \<rightharpoonup> ModSocketMetadata list option)
    \<Rightarrow> DimItem list \<Rightarrow> PluggableInventoryItemDefinition option list
    \<Rightarrow> PluggableInventoryItemDefinition option list \<Rightarrow> SearchState
    \<Rightarrow> PluggableInventoryItemDefinition option list \<Rightarrow> error + SearchState" where
  "tripleStep K itemEnergies itemSocketMetadata items activityPermutation combatPermutation best
      generalPermutation =
     (case slotLoop K itemEnergies itemSocketMetadata activityPermutation combatPermutation
             generalPermutation (assignmentUnassignedModCount best) items 0 0 [] of
        Inl e \<Rightarrow> Inl e
      | Inr None \<Rightarrow> Inr best
      | Inr (Some (unassignedModCount, assignments)) \<Rightarrow>
          (case scoreLoop itemEnergies assignments 0 of
             Inl e \<Rightarrow> Inl e
           | Inr energyUsedAndWasted \<Rightarrow>
               if isImprovement unassignedModCount energyUsedAndWasted best
               then Inr \<lparr> bucketIndependentAssignments = assignments,
                          assignmentEnergyCost = energyUsedAndWasted,
                          assignmentUnassignedModCount = unassignedModCount \<rparr>
               else Inr best))"

text \<open>A \<open>for ... of\<close> loop that threads a state and stops at the first exception.\<close>

fun forEach :: "('s \<Rightarrow> 'a \<Rightarrow> error + 's) \<Rightarrow> 's \<Rightarrow> 'a list \<Rightarrow> error + 's" where
  "forEach body s [] = Inr s"
| "forEach body s (x # xs) =
     (case body s x of Inl e \<Rightarrow> Inl e | Inr s' \<Rightarrow> forEach body s' xs)"

definition generalLoop ::
  "'defs Collaborators \<Rightarrow> (string \<rightharpoonup> ItemEnergy) \<Rightarrow> (string \<rightharpoonup> ModSocketMetadata list option)
    \<Rightarrow> DimItem list \<Rightarrow> PluggableInventoryItemDefinition option list list
    \<Rightarrow> PluggableInventoryItemDefinition option list
    \<Rightarrow> PluggableInventoryItemDefinition option list \<Rightarrow> SearchState \<Rightarrow> error + SearchState" where
  "generalLoop K itemEnergies itemSocketMetadata items generalModPermutations
      activityPermutation combatPermutation best =
     forEach (tripleStep K itemEnergies itemSocketMetadata items activityPermutation
                combatPermutation) best generalModPermutations"

definition combatLoop ::
  "'defs Collaborators \<Rightarrow> (string \<rightharpoonup> ItemEnergy) \<Rightarrow> (string \<rightharpoonup> ModSocketMetadata list option)
    \<Rightarrow> DimItem list \<Rightarrow> PluggableInventoryItemDefinition option list list
    \<Rightarrow> PluggableInventoryItemDefinition option list list
    \<Rightarrow> PluggableInventoryItemDefinition option list \<Rightarrow> SearchState \<Rightarrow> error + SearchState" where
  "combatLoop K itemEnergies itemSocketMetadata items combatModPermutations
      generalModPermutations activityPermutation best =
     forEach (\<lambda>b combatPermutation.
                generalLoop K itemEnergies itemSocketMetadata items generalModPermutations
                  activityPermutation combatPermutation b)
       best combatModPermutations"

definition activityLoop ::
  "'defs Collaborators \<Rightarrow> (string \<rightharpoonup> ItemEnergy) \<Rightarrow> (string \<rightharpoonup> ModSocketMetadata list option)
    \<Rightarrow> DimItem list \<Rightarrow> PluggableInventoryItemDefinition option list list
    \<Rightarrow> PluggableInventoryItemDefinition option list list
    \<Rightarrow> PluggableInventoryItemDefinition option list list \<Rightarrow> SearchState \<Rightarrow> error + SearchState" where
  "activityLoop K itemEnergies itemSocketMetadata items activityModPermutations
      combatModPermutations generalModPermutations best =
     forEach (\<lambda>b activityPermutation.
                combatLoop K itemEnergies itemSocketMetadata items combatModPermutations
                  generalModPermutations activityPermutation b)
       best activityModPermutations"

section \<open>Dividing the mods and the bucket specific pass\<close>

record ModPools =
  generalMods :: "PluggableInventoryItemDefinition list"
  combatMods :: "PluggableInventoryItemDefinition list"
  activityMods :: "PluggableInventoryItemDefinition list"
  bucketSpecificAssignments :: AssignmentMap

text \<open>\<open>map.get(id)?.assigned || []\<close> and its sibling for \<open>unassigned\<close>.\<close>

definition assignedAt :: "AssignmentMap \<Rightarrow> string \<Rightarrow> PluggableInventoryItemDefinition list" where
  "assignedAt m k = (case map_of m k of None \<Rightarrow> [] | Some a \<Rightarrow> assigned a)"

definition unassignedAt :: "AssignmentMap \<Rightarrow> string \<Rightarrow> PluggableInventoryItemDefinition list" where
  "unassignedAt m k = (case map_of m k of None \<Rightarrow> [] | Some a \<Rightarrow> unassigned a)"

text \<open>
  \<open>map.get(id)?.assigned.push(mod)\<close>: the entry is changed in place, and nothing
  happens when there is none.
\<close>

definition pushAssigned ::
  "string \<Rightarrow> PluggableInventoryItemDefinition \<Rightarrow> AssignmentMap \<Rightarrow> AssignmentMap" where
  "pushAssigned k m al =
     (case map_of al k of
        None \<Rightarrow> al
      | Some a \<Rightarrow> AList.update k (a\<lparr> assigned := assigned a @ [m] \<rparr>) al)"

definition pushUnassigned ::
  "string \<Rightarrow> PluggableInventoryItemDefinition \<Rightarrow> AssignmentMap \<Rightarrow> AssignmentMap" where
  "pushUnassigned k m al =
     (case map_of al k of
        None \<Rightarrow> al
      | Some a \<Rightarrow> AList.update k (a\<lparr> unassigned := unassigned a @ [m] \<rparr>) al)"

text \<open>The two maps start with an empty entry for every item.\<close>

definition initAssignments :: "DimItem list \<Rightarrow> AssignmentMap" where
  "initAssignments items =
     foldl (\<lambda>al item. AList.update (itemId item) \<lparr> assigned = [], unassigned = [] \<rparr> al) [] items"

text \<open>The body of \<open>for (const mod of mods)\<close>.\<close>

definition divideMod ::
  "'defs Collaborators \<Rightarrow> 'defs \<Rightarrow> nat \<Rightarrow> bool \<Rightarrow> DimItem list \<Rightarrow> ModPools
    \<Rightarrow> PluggableInventoryItemDefinition \<Rightarrow> ModPools" where
  "divideMod K defs upgradeSpendTier lockItemEnergyType items st m =
     (if plugCategoryHash (plug m) = armor2General K
      then st\<lparr> generalMods := generalMods st @ [m] \<rparr>
      else if plugCategoryHash (plug m) \<in> set (combatCompatiblePlugCategoryHashes K)
      then st\<lparr> combatMods := combatMods st @ [m] \<rparr>
      else if plugCategoryHash (plug m) \<in> set (activityModPlugCategoryHashes K)
      then st\<lparr> activityMods := activityMods st @ [m] \<rparr>
      else (case find (\<lambda>item. Some (plugCategoryHash (plug m)) = bucketsToCategories K (bucketHash item))
                   items of
              None \<Rightarrow> st
            | Some itemForMod \<Rightarrow>
                if isBucketSpecificModValid K defs upgradeSpendTier lockItemEnergyType itemForMod m
                     (assignedAt (bucketSpecificAssignments st) (itemId itemForMod))
                then st\<lparr> bucketSpecificAssignments :=
                            pushAssigned (itemId itemForMod) m (bucketSpecificAssignments st) \<rparr>
                else st\<lparr> bucketSpecificAssignments :=
                            pushUnassigned (itemId itemForMod) m (bucketSpecificAssignments st) \<rparr>))"

definition divideMods ::
  "'defs Collaborators \<Rightarrow> 'defs \<Rightarrow> nat \<Rightarrow> bool \<Rightarrow> DimItem list
    \<Rightarrow> PluggableInventoryItemDefinition list \<Rightarrow> ModPools" where
  "divideMods K defs upgradeSpendTier lockItemEnergyType items mods =
     foldl (divideMod K defs upgradeSpendTier lockItemEnergyType items)
       \<lparr> generalMods = [], combatMods = [], activityMods = [],
         bucketSpecificAssignments = initAssignments items \<rparr>
       mods"

section \<open>Merging the results\<close>

text \<open>The body of the last loop over the items.\<close>

definition mergeItem ::
  "AssignmentMap \<Rightarrow> AssignmentMap
    \<Rightarrow> (string \<times> PluggableInventoryItemDefinition list) list \<times> PluggableInventoryItemDefinition list
    \<Rightarrow> DimItem
    \<Rightarrow> (string \<times> PluggableInventoryItemDefinition list) list \<times> PluggableInventoryItemDefinition list" where
  "mergeItem independent specific acc item =
     (AList.update (itemId item)
        (assignedAt independent (itemId item) @ assignedAt specific (itemId item)) (fst acc),
      snd acc @ unassignedAt independent (itemId item) @ unassignedAt specific (itemId item))"

definition mergeResults ::
  "DimItem list \<Rightarrow> AssignmentMap \<Rightarrow> AssignmentMap
    \<Rightarrow> (string \<times> PluggableInventoryItemDefinition list) list \<times> PluggableInventoryItemDefinition list" where
  "mergeResults items independent specific =
     foldl (mergeItem independent specific) ([], []) items"

section \<open>The entry point\<close>

definition itemEnergiesOf ::
  "'defs Collaborators \<Rightarrow> 'defs \<Rightarrow> nat \<Rightarrow> bool \<Rightarrow> DimItem list \<Rightarrow> AssignmentMap
    \<Rightarrow> (string \<rightharpoonup> ItemEnergy)" where
  "itemEnergiesOf K defs upgradeSpendTier lockItemEnergyType items specific =
     mapValues (keyBy items)
       (\<lambda>item. buildItemEnergy K defs item (assignedAt specific (itemId item))
                 upgradeSpendTier lockItemEnergyType)"

definition initialState :: "DimItem list \<Rightarrow> SearchState" where
  "initialState items =
     \<lparr> bucketIndependentAssignments = initAssignments items,
       assignmentEnergyCost = 10000,
       assignmentUnassignedModCount = 10000 \<rparr>"

text \<open>The search of the entry point, from the divided pools to the best state.\<close>

definition searchBest ::
  "'defs Collaborators \<Rightarrow> 'defs \<Rightarrow> nat \<Rightarrow> bool \<Rightarrow> DimItem list \<Rightarrow> ModPools \<Rightarrow> error + SearchState" where
  "searchBest K defs upgradeSpendTier lockItemEnergyType items pools =
     activityLoop K
       (itemEnergiesOf K defs upgradeSpendTier lockItemEnergyType items
          (bucketSpecificAssignments pools))
       (mapValues (keyBy items) (getSpecialtySocketMetadatas K))
       items
       (generateModPermutations K (activityMods pools))
       (generateModPermutations K (combatMods pools))
       (generateModPermutations K (generalMods pools))
       (initialState items)"

definition getCheapestModAssignments ::
  "'defs Collaborators \<Rightarrow> DimItem list \<Rightarrow> PluggableInventoryItemDefinition list \<Rightarrow> 'defs option
    \<Rightarrow> nat \<Rightarrow> bool
    \<Rightarrow> error + ((string \<times> PluggableInventoryItemDefinition list) list
                 \<times> PluggableInventoryItemDefinition list)" where
  "getCheapestModAssignments K items mods defs upgradeSpendTier lockItemEnergyType =
     (case defs of
        None \<Rightarrow> Inr ([], [])
      | Some d \<Rightarrow>
          (let pools = divideMods K d upgradeSpendTier lockItemEnergyType items mods
           in case searchBest K d upgradeSpendTier lockItemEnergyType items pools of
                Inl e \<Rightarrow> Inl e
              | Inr best \<Rightarrow>
                  Inr (mergeResults items (bucketIndependentAssignments best)
                         (bucketSpecificAssignments pools))))"

section \<open>The energy rule of the absent validity predicate\<close>

text \<open>
  Modelled from the spec: \<open>isModEnergyValid\<close> is imported from
  \<open>app/loadout-builder/mod-assignments\<close>, which is not part of the module. The spec gives
  the general validity rule as the rule of the bucket specific predicate (the mod's type
  is the slot's derived type, or either is the wildcard, and consumed-so-far plus the
  mod's cost is at most the derived capacity), where consumed-so-far is the snapshot's
  \<open>used\<close> plus the costs of the mods already assigned to the slot in this round.
\<close>

definition isModEnergyValid_spec ::
  "ItemEnergy \<Rightarrow> PluggableInventoryItemDefinition \<Rightarrow> PluggableInventoryItemDefinition list \<Rightarrow> bool" where
  "isModEnergyValid_spec itemEnergy m assignedMods =
     ((modEnergyTypeOf m = derivedType itemEnergy \<or> modEnergyTypeOf m = Any \<or>
       derivedType itemEnergy = Any) \<and>
      used itemEnergy + sumBy assignedMods + modCostOf m \<le> derivedCapacity itemEnergy)"

section \<open>The sequence of triples\<close>

text \<open>
  The triples in the order the three nested loops visit them: the activity permutation
  outermost, the general permutation innermost.
\<close>

definition allTriples :: "'a list \<Rightarrow> 'b list \<Rightarrow> 'c list \<Rightarrow> ('a \<times> 'b \<times> 'c) list" where
  "allTriples aps cps gps =
     concat (map (\<lambda>ap. concat (map (\<lambda>cp. map (\<lambda>gp. (ap, cp, gp)) gps) cps)) aps)"

section \<open>Concrete inputs\<close>

text \<open>
  A small instance of the collaborators, used to run the model: every item can be
  upgraded to ten energy, an item keeps its own energy type, a pool is placed on the
  positions from the first one on or from the second one on, plug category 1 is the
  general one, 2 is combat compatible (tag \<open>combat\<close>), 3 is an activity category (tag
  \<open>raid\<close>), helmets (bucket 10) take category 4 and chest pieces (bucket 11) category 5,
  and only chest pieces have a specialty socket, for \<open>raid\<close> and \<open>combat\<close> mods.
\<close>

definition exampleCollaborators :: "unit Collaborators" where
  "exampleCollaborators =
     \<lparr> upgradeSpendTierToMaxEnergy = (\<lambda>d tier item. 10),
       getItemEnergyType =
         (\<lambda>d item tier lock ms. case energy item of None \<Rightarrow> Any | Some e \<Rightarrow> dimEnergyType e),
       isModEnergyValid = isModEnergyValid_spec,
       generateModPermutations = (\<lambda>ms. [map Some ms, None # map Some ms]),
       getModTypeTagByPlugCategoryHash =
         (\<lambda>h. if h = 2 then Some ''combat'' else if h = 3 then Some ''raid'' else None),
       getSpecialtySocketMetadatas =
         (\<lambda>item. if bucketHash item = 11
                then Some [\<lparr> compatibleModTags = [''raid'', ''combat''] \<rparr>] else None),
       armor2General = 1,
       combatCompatiblePlugCategoryHashes = [2],
       activityModPlugCategoryHashes = [3],
       bucketsToCategories = (\<lambda>b. if b = 10 then Some 4 else if b = 11 then Some 5 else None) \<rparr>"

definition mkMod ::
  "nat \<Rightarrow> nat \<Rightarrow> nat \<Rightarrow> DestinyEnergyType \<Rightarrow> PluggableInventoryItemDefinition" where
  "mkMod h c cost t =
     \<lparr> hash = h,
       plug = \<lparr> plugCategoryHash = c,
                plugEnergyCost = Some \<lparr> energyCost = cost, energyType = t \<rparr> \<rparr> \<rparr>"

definition helmet :: DimItem where
  "helmet = \<lparr> itemId = ''helmet'', bucketHash = 10,
               energy = Some \<lparr> energyCapacity = 5, dimEnergyType = Thermal \<rparr> \<rparr>"

definition chest :: DimItem where
  "chest = \<lparr> itemId = ''chest'', bucketHash = 11,
              energy = Some \<lparr> energyCapacity = 7, dimEnergyType = Arc \<rparr> \<rparr>"

definition exampleEnergies :: "string \<rightharpoonup> ItemEnergy" where
  "exampleEnergies =
     itemEnergiesOf exampleCollaborators () 0 False [helmet, chest] (initAssignments [helmet, chest])"

definition exampleSockets :: "string \<rightharpoonup> ModSocketMetadata list option" where
  "exampleSockets =
     mapValues (keyBy [helmet, chest]) (getSpecialtySocketMetadatas exampleCollaborators)"

text \<open>
  A second instance, in which an item can be upgraded to its own energy capacity only,
  and two items that share one id.
\<close>

definition ownCapacityCollaborators :: "unit Collaborators" where
  "ownCapacityCollaborators =
     exampleCollaborators
       \<lparr> upgradeSpendTierToMaxEnergy :=
           (\<lambda>d tier item. case energy item of None \<Rightarrow> 0 | Some e \<Rightarrow> energyCapacity e) \<rparr>"

definition twinHelmet :: DimItem where
  "twinHelmet = \<lparr> itemId = ''twin'', bucketHash = 10,
                   energy = Some \<lparr> energyCapacity = 10, dimEnergyType = Any \<rparr> \<rparr>"

definition twinChest :: DimItem where
  "twinChest = \<lparr> itemId = ''twin'', bucketHash = 11,
                  energy = Some \<lparr> energyCapacity = 1, dimEnergyType = Any \<rparr> \<rparr>"

section \<open>The mods an assignment map holds\<close>

text \<open>
  The mods that an assignment map holds for a list of items, assigned or unassigned,
  counted as often as they occur.
\<close>

definition modsPlaced ::
  "AssignmentMap \<Rightarrow> DimItem list \<Rightarrow> PluggableInventoryItemDefinition multiset" where
  "modsPlaced al items =
     (\<Sum>item\<leftarrow>items. mset (assignedAt al (itemId item)) + mset (unassignedAt al (itemId item)))"

section \<open>The energy change of a slot\<close>

lemma finalEnergyLoop_find:
  "finalEnergyLoop t ms =
     (if t \<noteq> Any then t
      else (case find (\<lambda>m. modEnergyTypeOf m \<noteq> Any) ms of
              None \<Rightarrow> Any | Some m \<Rightarrow> modEnergyTypeOf m))"
proof (induction ms arbitrary: t)
  case Nil
  then show ?case by simp
next
  case (Cons m ms)
  show ?case
    by (cases "plugEnergyCost (plug m)") (simp_all add: Cons.IH modEnergyTypeOf_def)
qed

text \<open>
  C5. The energy change of a slot is \<open>max 0 (totalCost - originalCapacity)\<close> when the
  final type is the original type or the wildcard, and \<open>totalCost + originalCapacity\<close>
  otherwise. The total cost is the energy used so far plus the costs of the assigned
  mods; the final type is the derived type unless that is the wildcard, and then the
  type of the first assigned mod, in order, whose type is not the wildcard.
\<close>

theorem calculateEnergyChange_score:
  "calculateEnergyChange itemEnergy assignedMods =
     (let finalType =
            (if derivedType itemEnergy \<noteq> Any then derivedType itemEnergy
             else (case find (\<lambda>m. modEnergyTypeOf m \<noteq> Any) assignedMods of
                     None \<Rightarrow> Any | Some m \<Rightarrow> modEnergyTypeOf m));
          totalCost = int (used itemEnergy) + (\<Sum>m\<leftarrow>assignedMods. int (modCostOf m))
      in if finalType = originalType itemEnergy \<or> finalType = Any
         then max 0 (totalCost - int (originalCapacity itemEnergy))
         else totalCost + int (originalCapacity itemEnergy))"
proof -
  have s: "int (sumBy assignedMods) = (\<Sum>m\<leftarrow>assignedMods. int (modCostOf m))"
    by (induction assignedMods) (simp_all add: sumBy_def)
  show ?thesis
    unfolding calculateEnergyChange_def Let_def finalEnergyLoop_find
    using s by simp
qed

text \<open>
  The scenario of the specification: a slot of derived type \<open>Any\<close> with an \<open>Arc\<close> mod and
  then a \<open>Void\<close> mod resolves to \<open>Arc\<close>, here the original type, so only the cost above
  the original capacity counts; in the other order the type changes and the full
  penalty applies.
\<close>

theorem calculateEnergyChange_score_witness:
  "calculateEnergyChange
     \<lparr> used = 1, originalCapacity = 3, derivedCapacity = 10, originalType = Arc, derivedType = Any \<rparr>
     [mkMod 1 1 2 Arc, mkMod 2 1 4 Void] = 4 \<and>
   calculateEnergyChange
     \<lparr> used = 1, originalCapacity = 3, derivedCapacity = 10, originalType = Arc, derivedType = Any \<rparr>
     [mkMod 2 1 4 Void, mkMod 1 1 2 Arc] = 10"
  using calculateEnergyChange_score [of
      "\<lparr> used = 1, originalCapacity = 3, derivedCapacity = 10, originalType = Arc, derivedType = Any \<rparr>"
      "[mkMod 1 1 2 Arc, mkMod 2 1 4 Void]"]
    calculateEnergyChange_score [of
      "\<lparr> used = 1, originalCapacity = 3, derivedCapacity = 10, originalType = Arc, derivedType = Any \<rparr>"
      "[mkMod 2 1 4 Void, mkMod 1 1 2 Arc]"]
  by (simp add: mkMod_def modEnergyTypeOf_def modCostOf_def)

section \<open>Tag compatibility\<close>

lemma tagFits_iff:
  "tagFits modTag md \<longleftrightarrow>
     (\<exists>t mds. modTag = Some t \<and> t \<noteq> [] \<and> md = Some mds \<and>
        (\<exists>x \<in> set mds. t \<in> set (compatibleModTags x)))"
  by (auto simp: tagFits_def list_ex_iff split: option.splits)

text \<open>
  C8. An activity or combat mod is valid for a slot only if its plug category resolves
  to a tag and that tag is among the compatible tags of one of the slot's socket
  metadata; a mod whose category resolves to no tag is invalid for every slot.
\<close>

theorem tag_required:
  "(isActivityModValid K m md e \<longrightarrow>
      (\<exists>t mds. getModTypeTagByPlugCategoryHash K (plugCategoryHash (plug m)) = Some t \<and>
         md = Some mds \<and> (\<exists>x \<in> set mds. t \<in> set (compatibleModTags x)))) \<and>
   (isCombatModValid K m assignedMods md e \<longrightarrow>
      (\<exists>t mds. getModTypeTagByPlugCategoryHash K (plugCategoryHash (plug m)) = Some t \<and>
         md = Some mds \<and> (\<exists>x \<in> set mds. t \<in> set (compatibleModTags x)))) \<and>
   (getModTypeTagByPlugCategoryHash K (plugCategoryHash (plug m)) = None \<longrightarrow>
      \<not> isActivityModValid K m md e \<and> \<not> isCombatModValid K m assignedMods md e)"
  by (auto simp: isActivityModValid_def isCombatModValid_def tagFits_iff)

theorem tag_required_witness:
  "isActivityModValid exampleCollaborators (mkMod 102 3 1 Any)
     (Some [\<lparr> compatibleModTags = [''raid''] \<rparr>])
     \<lparr> used = 0, originalCapacity = 7, derivedCapacity = 10, originalType = Arc, derivedType = Arc \<rparr> \<and>
   isCombatModValid exampleCollaborators (mkMod 104 2 1 Arc) [mkMod 102 3 1 Any]
     (Some [\<lparr> compatibleModTags = [''raid'', ''combat''] \<rparr>])
     \<lparr> used = 0, originalCapacity = 7, derivedCapacity = 10, originalType = Arc, derivedType = Arc \<rparr> \<and>
   (\<exists>t mds. getModTypeTagByPlugCategoryHash exampleCollaborators
               (plugCategoryHash (plug (mkMod 102 3 1 Any))) = Some t \<and>
      Some [\<lparr> compatibleModTags = [''raid''] \<rparr>] = Some mds \<and>
      (\<exists>x \<in> set mds. t \<in> set (compatibleModTags x))) \<and>
   getModTypeTagByPlugCategoryHash exampleCollaborators
     (plugCategoryHash (plug (mkMod 100 1 4 Any))) = None \<and>
   \<not> isActivityModValid exampleCollaborators (mkMod 100 1 4 Any)
       (Some [\<lparr> compatibleModTags = [''raid''] \<rparr>])
       \<lparr> used = 0, originalCapacity = 7, derivedCapacity = 10, originalType = Arc, derivedType = Arc \<rparr>"
proof -
  let ?e = "\<lparr> used = 0, originalCapacity = 7, derivedCapacity = 10, originalType = Arc,
               derivedType = Arc \<rparr>"
  have a: "isActivityModValid exampleCollaborators (mkMod 102 3 1 Any)
             (Some [\<lparr> compatibleModTags = [''raid''] \<rparr>]) ?e"
    by code_simp
  have c: "isCombatModValid exampleCollaborators (mkMod 104 2 1 Arc) [mkMod 102 3 1 Any]
             (Some [\<lparr> compatibleModTags = [''raid'', ''combat''] \<rparr>]) ?e"
    by code_simp
  have n: "getModTypeTagByPlugCategoryHash exampleCollaborators
             (plugCategoryHash (plug (mkMod 100 1 4 Any))) = None"
    by code_simp
  from a c n
    tag_required [of exampleCollaborators "mkMod 102 3 1 Any"
      "Some [\<lparr> compatibleModTags = [''raid''] \<rparr>]" ?e "[]"]
    tag_required [of exampleCollaborators "mkMod 100 1 4 Any"
      "Some [\<lparr> compatibleModTags = [''raid''] \<rparr>]" ?e "[]"]
  show ?thesis by blast
qed

section \<open>The replacement rule\<close>

lemma isImprovement_iff:
  "isImprovement cnt score best \<longleftrightarrow>
     cnt < assignmentUnassignedModCount best \<or>
     (cnt = assignmentUnassignedModCount best \<and> score < assignmentEnergyCost best)"
  by (auto simp: isImprovement_def)

text \<open>
  C3. A triple that was evaluated on every slot and scored replaces the best so far if
  and only if its unassigned count is strictly smaller, or the counts are equal and its
  score is strictly smaller; a triple equal on both keys leaves the best so far as it is.
\<close>

theorem replacement_rule:
  assumes "slotLoop K ie sm ap cp gp (assignmentUnassignedModCount best) items 0 0 [] =
             Inr (Some (cnt, asg))"
      and "scoreLoop ie asg 0 = Inr score"
  shows "tripleStep K ie sm items ap cp best gp =
           Inr (if cnt < assignmentUnassignedModCount best \<or>
                   (cnt = assignmentUnassignedModCount best \<and> score < assignmentEnergyCost best)
                then \<lparr> bucketIndependentAssignments = asg, assignmentEnergyCost = score,
                       assignmentUnassignedModCount = cnt \<rparr>
                else best) \<and>
         (cnt = assignmentUnassignedModCount best \<and> score = assignmentEnergyCost best \<longrightarrow>
            tripleStep K ie sm items ap cp best gp = Inr best)"
  using assms by (simp add: tripleStep_def isImprovement_iff)

text \<open>
  On a helmet alone: the first triple replaces the initial state, and the same triple
  against a state with its own two keys does not replace it.
\<close>

theorem replacement_rule_witness:
  "tripleStep exampleCollaborators exampleEnergies exampleSockets [helmet] [] []
     (initialState [helmet]) [Some (mkMod 100 1 4 Any)] =
     Inr \<lparr> bucketIndependentAssignments =
             [(''helmet'', \<lparr> assigned = [mkMod 100 1 4 Any], unassigned = [] \<rparr>)],
           assignmentEnergyCost = 0, assignmentUnassignedModCount = 0 \<rparr> \<and>
   tripleStep exampleCollaborators exampleEnergies exampleSockets [helmet] [] []
     \<lparr> bucketIndependentAssignments = [], assignmentEnergyCost = 0,
       assignmentUnassignedModCount = 0 \<rparr> [Some (mkMod 100 1 4 Any)] =
     Inr \<lparr> bucketIndependentAssignments = [], assignmentEnergyCost = 0,
           assignmentUnassignedModCount = 0 \<rparr>"
proof -
  let ?asg = "[(''helmet'', \<lparr> assigned = [mkMod 100 1 4 Any], unassigned = [] \<rparr>)]"
  let ?b = "\<lparr> bucketIndependentAssignments = [], assignmentEnergyCost = 0,
              assignmentUnassignedModCount = 0 \<rparr>"
  have s1: "slotLoop exampleCollaborators exampleEnergies exampleSockets [] []
              [Some (mkMod 100 1 4 Any)] (assignmentUnassignedModCount (initialState [helmet]))
              [helmet] 0 0 [] = Inr (Some (0, ?asg))"
    by code_simp
  have s2: "slotLoop exampleCollaborators exampleEnergies exampleSockets [] []
              [Some (mkMod 100 1 4 Any)] (assignmentUnassignedModCount ?b)
              [helmet] 0 0 [] = Inr (Some (0, ?asg))"
    by code_simp
  have sc: "scoreLoop exampleEnergies ?asg 0 = Inr 0"
    by code_simp
  from replacement_rule [OF s1 sc] replacement_rule [OF s2 sc]
  show ?thesis by (simp add: initialState_def)
qed

section \<open>Early abandonment\<close>

lemma slotLoop_append:
  "slotLoop K ie sm ap cp gp b (xs @ ys) i cnt asg =
     (case slotLoop K ie sm ap cp gp b xs i cnt asg of
        Inl e \<Rightarrow> Inl e
      | Inr None \<Rightarrow> Inr None
      | Inr (Some (c, a)) \<Rightarrow> slotLoop K ie sm ap cp gp b ys (i + length xs) c a)"
  by (induction xs arbitrary: i cnt asg) (auto split: sum.splits option.splits)

text \<open>
  C4. When the slots before an item were evaluated without abandonment and the item's
  own unassigned mods lift the running count strictly above the best count so far, the
  loop over the items stops there whatever items follow, the triple leaves the best
  state unchanged, and the loop over the general permutations goes on with the next one.
\<close>

theorem early_abandonment:
  assumes "slotLoop K ie sm ap cp gp (assignmentUnassignedModCount best) pre 0 0 [] =
             Inr (Some (cnt, asg))"
      and "evalSlotChecked K (ie (itemId item)) (socketMetadataAt sm (itemId item))
             (permutationAt ap (length pre)) (permutationAt cp (length pre))
             (permutationAt gp (length pre)) = Inr r"
      and "cnt + length (unassigned r) > assignmentUnassignedModCount best"
  shows "slotLoop K ie sm ap cp gp (assignmentUnassignedModCount best) (pre @ item # rest) 0 0 [] =
           Inr None \<and>
         tripleStep K ie sm (pre @ item # rest) ap cp best gp = Inr best \<and>
         generalLoop K ie sm (pre @ item # rest) (gp # gps) ap cp best =
           generalLoop K ie sm (pre @ item # rest) gps ap cp best"
proof -
  have a: "slotLoop K ie sm ap cp gp (assignmentUnassignedModCount best) (pre @ item # rest) 0 0 [] =
           Inr None"
    using assms by (simp add: slotLoop_append)
  then have b: "tripleStep K ie sm (pre @ item # rest) ap cp best gp = Inr best"
    by (simp add: tripleStep_def)
  then show ?thesis using a by (simp add: generalLoop_def)
qed

text \<open>
  With a best count of zero, a general mod of cost eleven cannot go into the helmet, so
  the triple is abandoned at the helmet and the chest piece is never looked at.
\<close>

theorem early_abandonment_witness:
  "tripleStep exampleCollaborators exampleEnergies exampleSockets ([] @ helmet # [chest]) [] []
     \<lparr> bucketIndependentAssignments = [], assignmentEnergyCost = 0,
       assignmentUnassignedModCount = 0 \<rparr> [Some (mkMod 105 1 11 Any)] =
     Inr \<lparr> bucketIndependentAssignments = [], assignmentEnergyCost = 0,
           assignmentUnassignedModCount = 0 \<rparr> \<and>
   slotLoop exampleCollaborators exampleEnergies exampleSockets [] [] [Some (mkMod 105 1 11 Any)]
     0 ([] @ helmet # [chest]) 0 0 [] = Inr None"
proof -
  let ?b = "\<lparr> bucketIndependentAssignments = [], assignmentEnergyCost = 0,
              assignmentUnassignedModCount = 0 \<rparr>"
  let ?gp = "[Some (mkMod 105 1 11 Any)]"
  have p: "slotLoop exampleCollaborators exampleEnergies exampleSockets [] [] ?gp
             (assignmentUnassignedModCount ?b) [] 0 0 [] = Inr (Some (0, []))"
    by simp
  have e: "evalSlotChecked exampleCollaborators (exampleEnergies (itemId helmet))
             (socketMetadataAt exampleSockets (itemId helmet))
             (permutationAt [] (length ([] :: DimItem list)))
             (permutationAt [] (length ([] :: DimItem list)))
             (permutationAt ?gp (length ([] :: DimItem list))) =
           Inr \<lparr> assigned = [], unassigned = [mkMod 105 1 11 Any] \<rparr>"
    by code_simp
  have c: "0 + length (unassigned \<lparr> assigned = [], unassigned = [mkMod 105 1 11 Any] \<rparr>)
             > assignmentUnassignedModCount ?b"
    by simp
  from early_abandonment [OF p e c, of "[chest]" "[]"]
  show ?thesis by simp
qed

section \<open>Monotonic improvement\<close>

lemma tripleStep_cases:
  assumes "tripleStep K ie sm items ap cp best gp = Inr best'"
  shows "best' = best \<or>
         assignmentUnassignedModCount best' < assignmentUnassignedModCount best \<or>
         (assignmentUnassignedModCount best' = assignmentUnassignedModCount best \<and>
          assignmentEnergyCost best' < assignmentEnergyCost best)"
  using assms
  by (auto simp: tripleStep_def isImprovement_def split: sum.splits option.splits if_splits)

lemma forEach_append:
  "forEach body s (xs @ ys) =
     (case forEach body s xs of Inl e \<Rightarrow> Inl e | Inr s' \<Rightarrow> forEach body s' ys)"
  by (induction xs arbitrary: s) (auto split: sum.splits)

lemma forEach_concat:
  "forEach body s (concat (map f xs)) = forEach (\<lambda>s x. forEach body s (f x)) s xs"
  by (induction xs arbitrary: s) (auto simp: forEach_append split: sum.splits)

lemma forEach_map:
  "forEach body s (map f xs) = forEach (\<lambda>s x. body s (f x)) s xs"
  by (induction xs arbitrary: s) (auto split: sum.splits)

lemma forEach_invariant:
  assumes "forEach body s xs = Inr s'" and "P s"
      and "\<And>t x t'. x \<in> set xs \<Longrightarrow> P t \<Longrightarrow> body t x = Inr t' \<Longrightarrow> P t'"
  shows "P s'"
  using assms
proof (induction xs arbitrary: s)
  case Nil
  then show ?case by simp
next
  case (Cons x xs)
  from Cons.prems(1) obtain t where t: "body s x = Inr t" and r: "forEach body t xs = Inr s'"
    by (auto split: sum.splits)
  have "P t" using Cons.prems(2,3) t by auto
  then show ?case using Cons.IH[OF r] Cons.prems(3) by auto
qed

lemma forEach_total:
  assumes "\<And>t x. x \<in> set xs \<Longrightarrow> \<exists>t'. body t x = Inr t'"
  shows "\<exists>s'. forEach body s xs = Inr s'"
  using assms
proof (induction xs arbitrary: s)
  case Nil
  then show ?case by simp
next
  case (Cons x xs)
  then obtain t where "body s x = Inr t" by (meson list.set_intros(1))
  then show ?case using Cons by auto
qed

lemma activityLoop_triples:
  "activityLoop K ie sm items aps cps gps best =
     forEach (\<lambda>b (ap, cp, gp). tripleStep K ie sm items ap cp b gp) best (allTriples aps cps gps)"
  by (simp add: activityLoop_def combatLoop_def generalLoop_def allTriples_def
        forEach_concat forEach_map)

lemma forEach_notWorse:
  assumes "forEach (\<lambda>b (ap, cp, gp). tripleStep K ie sm items ap cp b gp) s ts = Inr s'"
  shows "assignmentUnassignedModCount s' \<le> assignmentUnassignedModCount s \<and>
         (assignmentUnassignedModCount s' = assignmentUnassignedModCount s \<longrightarrow>
            assignmentEnergyCost s' \<le> assignmentEnergyCost s)"
proof (rule forEach_invariant[OF assms, where
        P = "\<lambda>t. assignmentUnassignedModCount t \<le> assignmentUnassignedModCount s \<and>
         (assignmentUnassignedModCount t = assignmentUnassignedModCount s \<longrightarrow>
            assignmentEnergyCost t \<le> assignmentEnergyCost s)"])
  show "assignmentUnassignedModCount s \<le> assignmentUnassignedModCount s \<and>
         (assignmentUnassignedModCount s = assignmentUnassignedModCount s \<longrightarrow>
            assignmentEnergyCost s \<le> assignmentEnergyCost s)" by simp
next
  fix t x t'
  assume p: "assignmentUnassignedModCount t \<le> assignmentUnassignedModCount s \<and>
         (assignmentUnassignedModCount t = assignmentUnassignedModCount s \<longrightarrow>
            assignmentEnergyCost t \<le> assignmentEnergyCost s)"
    and st: "(case x of (ap, cp, gp) \<Rightarrow> tripleStep K ie sm items ap cp t gp) = Inr t'"
  obtain ap cp gp where x: "x = (ap, cp, gp)" by (cases x) auto
  from st x have "tripleStep K ie sm items ap cp t gp = Inr t'" by simp
  from tripleStep_cases[OF this] p
  show "assignmentUnassignedModCount t' \<le> assignmentUnassignedModCount s \<and>
         (assignmentUnassignedModCount t' = assignmentUnassignedModCount s \<longrightarrow>
            assignmentEnergyCost t' \<le> assignmentEnergyCost s)"
    by auto
qed

text \<open>
  C9. The three nested loops run the body over the triples in sequence. One triple
  either leaves the best state as it is, or lowers its unassigned count, or keeps the
  count and strictly lowers its score. Hence over any stretch of triples the count never
  increases, and the score does not increase while the count stays the same.
\<close>

theorem best_monotone:
  "activityLoop K ie sm items aps cps gps best =
     forEach (\<lambda>b (ap, cp, gp). tripleStep K ie sm items ap cp b gp) best (allTriples aps cps gps) \<and>
   (tripleStep K ie sm items ap cp s gp = Inr s' \<longrightarrow>
      s' = s \<or>
      assignmentUnassignedModCount s' < assignmentUnassignedModCount s \<or>
      (assignmentUnassignedModCount s' = assignmentUnassignedModCount s \<and>
       assignmentEnergyCost s' < assignmentEnergyCost s)) \<and>
   (forEach (\<lambda>b (ap, cp, gp). tripleStep K ie sm items ap cp b gp) s ts = Inr s'' \<longrightarrow>
      assignmentUnassignedModCount s'' \<le> assignmentUnassignedModCount s \<and>
      (assignmentUnassignedModCount s'' = assignmentUnassignedModCount s \<longrightarrow>
         assignmentEnergyCost s'' \<le> assignmentEnergyCost s))"
  using activityLoop_triples[of K ie sm items aps cps gps best]
    tripleStep_cases[of K ie sm items ap cp s gp s']
    forEach_notWorse[of K ie sm items s ts s'']
  by blast

text \<open>
  On a helmet of original capacity five: after a general mod of cost seven (score two), a
  general mod of cost four keeps the count at zero and lowers the score to zero; a run
  of three triples from the initial state ends in that state.
\<close>

theorem best_monotone_witness:
  "tripleStep exampleCollaborators exampleEnergies exampleSockets [helmet] [] []
     \<lparr> bucketIndependentAssignments =
         [(''helmet'', \<lparr> assigned = [mkMod 106 1 7 Any], unassigned = [] \<rparr>)],
       assignmentEnergyCost = 2, assignmentUnassignedModCount = 0 \<rparr>
     [Some (mkMod 100 1 4 Any)] =
     Inr \<lparr> bucketIndependentAssignments =
             [(''helmet'', \<lparr> assigned = [mkMod 100 1 4 Any], unassigned = [] \<rparr>)],
           assignmentEnergyCost = 0, assignmentUnassignedModCount = 0 \<rparr> \<and>
   forEach (\<lambda>b (ap, cp, gp).
              tripleStep exampleCollaborators exampleEnergies exampleSockets [helmet] ap cp b gp)
     (initialState [helmet])
     [([], [], [Some (mkMod 106 1 7 Any)]), ([], [], [Some (mkMod 100 1 4 Any)]),
      ([], [], [Some (mkMod 105 1 11 Any)])] =
     Inr \<lparr> bucketIndependentAssignments =
             [(''helmet'', \<lparr> assigned = [mkMod 100 1 4 Any], unassigned = [] \<rparr>)],
           assignmentEnergyCost = 0, assignmentUnassignedModCount = 0 \<rparr> \<and>
   (0::nat) \<le> assignmentUnassignedModCount (initialState [helmet]) \<and>
   (0::int) < 2"
proof -
  let ?s1 = "\<lparr> bucketIndependentAssignments =
                 [(''helmet'', \<lparr> assigned = [mkMod 106 1 7 Any], unassigned = [] \<rparr>)],
               assignmentEnergyCost = 2, assignmentUnassignedModCount = 0 \<rparr>"
  let ?s2 = "\<lparr> bucketIndependentAssignments =
                 [(''helmet'', \<lparr> assigned = [mkMod 100 1 4 Any], unassigned = [] \<rparr>)],
               assignmentEnergyCost = 0, assignmentUnassignedModCount = 0 \<rparr>"
  let ?ts = "[([], [], [Some (mkMod 106 1 7 Any)]), ([], [], [Some (mkMod 100 1 4 Any)]),
              ([], [], [Some (mkMod 105 1 11 Any)])]"
  have t: "tripleStep exampleCollaborators exampleEnergies exampleSockets [helmet] [] [] ?s1
             [Some (mkMod 100 1 4 Any)] = Inr ?s2"
    by code_simp
  have f: "forEach (\<lambda>b (ap, cp, gp).
              tripleStep exampleCollaborators exampleEnergies exampleSockets [helmet] ap cp b gp)
             (initialState [helmet]) ?ts = Inr ?s2"
    by code_simp
  from t f
    best_monotone [of exampleCollaborators exampleEnergies exampleSockets "[helmet]" "[]" "[]" "[]"
      "initialState [helmet]" "[]" "[]" ?s1 "[Some (mkMod 100 1 4 Any)]" ?s2 "[]" ?s1]
    best_monotone [of exampleCollaborators exampleEnergies exampleSockets "[helmet]" "[]" "[]" "[]"
      "initialState [helmet]" "[]" "[]" "initialState [helmet]" "[Some (mkMod 100 1 4 Any)]" ?s2 ?ts ?s2]
  show ?thesis by simp
qed

section \<open>The entries of a candidate assignment\<close>

lemma set_update_subset: "set (AList.update k v al) \<subseteq> insert (k, v) (set al)"
  by (induction al) auto

lemma slotLoop_entries:
  assumes "slotLoop K ie sm ap cp gp b items i cnt asg = Inr (Some (cnt', asg'))"
      and "(k, r) \<in> set asg'"
  shows "(k, r) \<in> set asg \<or>
         (\<exists>j < length items. k = itemId (items ! j) \<and>
            evalSlotChecked K (ie k) (socketMetadataAt sm k) (permutationAt ap (i + j))
              (permutationAt cp (i + j)) (permutationAt gp (i + j)) = Inr r)"
  using assms
proof (induction items arbitrary: i cnt asg)
  case Nil
  then show ?case by simp
next
  case (Cons item rest)
  from Cons.prems(1) obtain r0 where
    e: "evalSlotChecked K (ie (itemId item)) (socketMetadataAt sm (itemId item))
          (permutationAt ap i) (permutationAt cp i) (permutationAt gp i) = Inr r0"
    and l: "slotLoop K ie sm ap cp gp b rest (Suc i) (cnt + length (unassigned r0))
              (AList.update (itemId item) r0 asg) = Inr (Some (cnt', asg'))"
    by (auto split: sum.splits if_splits)
  from Cons.IH[OF l Cons.prems(2)]
  consider "(k, r) \<in> set (AList.update (itemId item) r0 asg)"
    | j where "j < length rest" "k = itemId (rest ! j)"
        "evalSlotChecked K (ie k) (socketMetadataAt sm k) (permutationAt ap (Suc i + j))
           (permutationAt cp (Suc i + j)) (permutationAt gp (Suc i + j)) = Inr r"
    by blast
  then show ?case
  proof cases
    case 1
    then have "(k, r) = (itemId item, r0) \<or> (k, r) \<in> set asg"
      using set_update_subset by fastforce
    then show ?thesis
    proof
      assume "(k, r) = (itemId item, r0)"
      then have "0 < length (item # rest) \<and> k = itemId ((item # rest) ! 0) \<and>
            evalSlotChecked K (ie k) (socketMetadataAt sm k) (permutationAt ap (i + 0))
              (permutationAt cp (i + 0)) (permutationAt gp (i + 0)) = Inr r"
        using e by simp
      then show ?thesis by blast
    next
      assume "(k, r) \<in> set asg"
      then show ?thesis by simp
    qed
  next
    case 2
    then have "Suc j < length (item # rest) \<and> k = itemId ((item # rest) ! Suc j) \<and>
            evalSlotChecked K (ie k) (socketMetadataAt sm k) (permutationAt ap (i + Suc j))
              (permutationAt cp (i + Suc j)) (permutationAt gp (i + Suc j)) = Inr r"
      by simp
    then show ?thesis by blast
  qed
qed

lemma evalSlot_subseq:
  "subseq (assigned (evalSlot K e md a c g)) (List.map_filter id [a, c, g])"
  by (cases a; cases c; cases g) (simp_all add: evalSlot_def Let_def List.map_filter_simps)

lemma evalSlotChecked_subseq:
  assumes "evalSlotChecked K eo md a c g = Inr r"
  shows "subseq (assigned r) (List.map_filter id [a, c, g])"
  using assms evalSlot_subseq[of K _ md a c g]
  by (auto simp: evalSlotChecked_def List.map_filter_simps split: option.splits if_splits)

lemma set_allTriples:
  "(ap, cp, gp) \<in> set (allTriples aps cps gps) \<longleftrightarrow>
     ap \<in> set aps \<and> cp \<in> set cps \<and> gp \<in> set gps"
  by (auto simp: allTriples_def)

lemma set_initAssignments:
  "set (initAssignments items) \<subseteq> (\<lambda>k. (k, \<lparr> assigned = [], unassigned = [] \<rparr>)) ` itemId ` set items"
proof -
  have "set (foldl (\<lambda>al item. AList.update (itemId item) \<lparr> assigned = [], unassigned = [] \<rparr> al) al0 items)
        \<subseteq> set al0 \<union> (\<lambda>k. (k, \<lparr> assigned = [], unassigned = [] \<rparr>)) ` itemId ` set items" for al0
  proof (induction items arbitrary: al0)
    case Nil
    then show ?case by simp
  next
    case (Cons a items)
    show ?case using Cons[of "AList.update (itemId a) \<lparr> assigned = [], unassigned = [] \<rparr> al0"]
      set_update_subset[of "itemId a" "\<lparr> assigned = [], unassigned = [] \<rparr>" al0]
      by auto
  qed
  from this[of "[]"] show ?thesis by (simp add: initAssignments_def)
qed


lemma slotLoop_subseq:
  assumes "slotLoop K ie sm ap cp gp b items 0 0 [] = Inr (Some (cnt, asg))"
      and "(k, r) \<in> set asg"
  shows "\<exists>i. subseq (assigned r)
           (List.map_filter id [permutationAt ap i, permutationAt cp i, permutationAt gp i])"
  using slotLoop_entries[OF assms] evalSlotChecked_subseq by fastforce

lemma tripleStep_subseq:
  assumes "tripleStep K ie sm items ap cp best gp = Inr best'"
      and "(k, r) \<in> set (bucketIndependentAssignments best')"
  shows "(k, r) \<in> set (bucketIndependentAssignments best) \<or>
         (\<exists>i. subseq (assigned r)
            (List.map_filter id [permutationAt ap i, permutationAt cp i, permutationAt gp i]))"
proof (cases "best' = best")
  case True
  then show ?thesis using assms(2) by simp
next
  case False
  with assms(1) obtain cnt where
    "slotLoop K ie sm ap cp gp (assignmentUnassignedModCount best) items 0 0 [] =
       Inr (Some (cnt, bucketIndependentAssignments best'))"
    by (auto simp: tripleStep_def split: sum.splits option.splits if_splits)
  from slotLoop_subseq[OF this assms(2)] show ?thesis by simp
qed

lemma activityLoop_subseq:
  assumes "activityLoop K ie sm items aps cps gps best = Inr best'"
      and "\<forall>(k, r) \<in> set (bucketIndependentAssignments best). assigned r = []"
  shows "\<forall>(k, r) \<in> set (bucketIndependentAssignments best').
           assigned r = [] \<or>
           (\<exists>ap \<in> set aps. \<exists>cp \<in> set cps. \<exists>gp \<in> set gps. \<exists>i.
              subseq (assigned r)
                (List.map_filter id [permutationAt ap i, permutationAt cp i, permutationAt gp i]))"
proof -
  let ?P = "\<lambda>s. \<forall>(k, r) \<in> set (bucketIndependentAssignments s).
           assigned r = [] \<or>
           (\<exists>ap \<in> set aps. \<exists>cp \<in> set cps. \<exists>gp \<in> set gps. \<exists>i.
              subseq (assigned r)
                (List.map_filter id [permutationAt ap i, permutationAt cp i, permutationAt gp i]))"
  have f: "forEach (\<lambda>b (ap, cp, gp). tripleStep K ie sm items ap cp b gp) best
             (allTriples aps cps gps) = Inr best'"
    using assms(1) by (simp add: activityLoop_triples)
  have p0: "?P best" using assms(2) by auto
  show ?thesis
  proof (rule forEach_invariant[OF f, where P = ?P, OF p0])
    fix t x t'
    assume x: "x \<in> set (allTriples aps cps gps)" and pt: "?P t"
      and st: "(case x of (ap, cp, gp) \<Rightarrow> tripleStep K ie sm items ap cp t gp) = Inr t'"
    obtain ap cp gp where xe: "x = (ap, cp, gp)" by (cases x) auto
    with x have m: "ap \<in> set aps" "cp \<in> set cps" "gp \<in> set gps"
      by (simp_all add: set_allTriples)
    from st xe have ts: "tripleStep K ie sm items ap cp t gp = Inr t'" by simp
    show "?P t'"
    proof (clarify)
      fix k r
      assume kr: "(k, r) \<in> set (bucketIndependentAssignments t')"
        and ne: "\<not> (\<exists>ap \<in> set aps. \<exists>cp \<in> set cps. \<exists>gp \<in> set gps. \<exists>i.
              subseq (assigned r)
                (List.map_filter id [permutationAt ap i, permutationAt cp i, permutationAt gp i]))"
      from tripleStep_subseq[OF ts kr] m ne
      have "(k, r) \<in> set (bucketIndependentAssignments t)" by blast
      with pt ne show "assigned r = []" by blast
    qed
  qed
qed

text \<open>
  C10. In a slot's search-derived assigned list the mods stand in the order activity,
  combat, general: the list is a subsequence of the candidates that the three
  permutations of a triple hold at one position, listed in that order with the absent
  ones left out. This holds for the result of one slot, for every entry of a candidate
  that the loop over the items builds, and for every entry of the best state that the
  search returns (whose lists are empty where no triple was ever stored).
\<close>

theorem assigned_pool_order:
  "subseq (assigned (evalSlot K e md a c g)) (List.map_filter id [a, c, g]) \<and>
   (slotLoop K ie sm ap cp gp b items 0 0 [] = Inr (Some (cnt, asg)) \<longrightarrow>
      (\<forall>(k, r) \<in> set asg. \<exists>i.
         subseq (assigned r)
           (List.map_filter id [permutationAt ap i, permutationAt cp i, permutationAt gp i]))) \<and>
   (searchBest K d tier lock items pools = Inr best \<longrightarrow>
      (\<forall>(k, r) \<in> set (bucketIndependentAssignments best).
         assigned r = [] \<or>
         (\<exists>ap \<in> set (generateModPermutations K (activityMods pools)).
          \<exists>cp \<in> set (generateModPermutations K (combatMods pools)).
          \<exists>gp \<in> set (generateModPermutations K (generalMods pools)). \<exists>i.
            subseq (assigned r)
              (List.map_filter id [permutationAt ap i, permutationAt cp i, permutationAt gp i]))))"
proof (intro conjI impI)
  show "subseq (assigned (evalSlot K e md a c g)) (List.map_filter id [a, c, g])"
    by (rule evalSlot_subseq)
next
  assume "slotLoop K ie sm ap cp gp b items 0 0 [] = Inr (Some (cnt, asg))"
  from slotLoop_subseq[OF this]
  show "\<forall>(k, r) \<in> set asg. \<exists>i.
         subseq (assigned r)
           (List.map_filter id [permutationAt ap i, permutationAt cp i, permutationAt gp i])"
    by blast
next
  assume s: "searchBest K d tier lock items pools = Inr best"
  have i: "\<forall>(k, r) \<in> set (bucketIndependentAssignments (initialState items)). assigned r = []"
    using set_initAssignments[of items] by (auto simp: initialState_def)
  from activityLoop_subseq[OF s[unfolded searchBest_def] i]
  show "\<forall>(k, r) \<in> set (bucketIndependentAssignments best).
         assigned r = [] \<or>
         (\<exists>ap \<in> set (generateModPermutations K (activityMods pools)).
          \<exists>cp \<in> set (generateModPermutations K (combatMods pools)).
          \<exists>gp \<in> set (generateModPermutations K (generalMods pools)). \<exists>i.
            subseq (assigned r)
              (List.map_filter id [permutationAt ap i, permutationAt cp i, permutationAt gp i]))" .
qed

text \<open>
  A helmet and a chest piece with one activity, one combat and one general mod. The
  triple that shifts all three mods to the second position gives the chest piece the
  list activity, combat, general; the search returns the first triple that places all
  mods at no cost, with the general mod on the helmet.
\<close>

theorem assigned_pool_order_witness:
  "slotLoop exampleCollaborators exampleEnergies exampleSockets
     [None, Some (mkMod 102 3 1 Any)] [None, Some (mkMod 104 2 1 Arc)]
     [None, Some (mkMod 100 1 4 Any)] 10000 [helmet, chest] 0 0 [] =
     Inr (Some (0, [(''helmet'', \<lparr> assigned = [], unassigned = [] \<rparr>),
                    (''chest'', \<lparr> assigned = [mkMod 102 3 1 Any, mkMod 104 2 1 Arc,
                                               mkMod 100 1 4 Any],
                                   unassigned = [] \<rparr>)])) \<and>
   (\<exists>i. subseq [mkMod 102 3 1 Any, mkMod 104 2 1 Arc, mkMod 100 1 4 Any]
          (List.map_filter id
             [permutationAt [None, Some (mkMod 102 3 1 Any)] i,
              permutationAt [None, Some (mkMod 104 2 1 Arc)] i,
              permutationAt [None, Some (mkMod 100 1 4 Any)] i])) \<and>
   searchBest exampleCollaborators () 0 False [helmet, chest]
     (divideMods exampleCollaborators () 0 False [helmet, chest]
        [mkMod 100 1 4 Any, mkMod 102 3 1 Any, mkMod 104 2 1 Arc]) =
     Inr \<lparr> bucketIndependentAssignments =
             [(''helmet'', \<lparr> assigned = [mkMod 100 1 4 Any], unassigned = [] \<rparr>),
              (''chest'', \<lparr> assigned = [mkMod 102 3 1 Any, mkMod 104 2 1 Arc],
                             unassigned = [] \<rparr>)],
           assignmentEnergyCost = 0, assignmentUnassignedModCount = 0 \<rparr> \<and>
   (\<exists>ap \<in> set (generateModPermutations exampleCollaborators
                 (activityMods (divideMods exampleCollaborators () 0 False [helmet, chest]
                    [mkMod 100 1 4 Any, mkMod 102 3 1 Any, mkMod 104 2 1 Arc]))).
    \<exists>cp \<in> set (generateModPermutations exampleCollaborators
                 (combatMods (divideMods exampleCollaborators () 0 False [helmet, chest]
                    [mkMod 100 1 4 Any, mkMod 102 3 1 Any, mkMod 104 2 1 Arc]))).
    \<exists>gp \<in> set (generateModPermutations exampleCollaborators
                 (generalMods (divideMods exampleCollaborators () 0 False [helmet, chest]
                    [mkMod 100 1 4 Any, mkMod 102 3 1 Any, mkMod 104 2 1 Arc]))).
    \<exists>i. subseq [mkMod 102 3 1 Any, mkMod 104 2 1 Arc]
           (List.map_filter id [permutationAt ap i, permutationAt cp i, permutationAt gp i]))"
proof -
  let ?asg = "[(''helmet'', \<lparr> assigned = [], unassigned = [] \<rparr>),
               (''chest'', \<lparr> assigned = [mkMod 102 3 1 Any, mkMod 104 2 1 Arc, mkMod 100 1 4 Any],
                              unassigned = [] \<rparr>)]"
  let ?pools = "divideMods exampleCollaborators () 0 False [helmet, chest]
        [mkMod 100 1 4 Any, mkMod 102 3 1 Any, mkMod 104 2 1 Arc]"
  let ?best = "\<lparr> bucketIndependentAssignments =
             [(''helmet'', \<lparr> assigned = [mkMod 100 1 4 Any], unassigned = [] \<rparr>),
              (''chest'', \<lparr> assigned = [mkMod 102 3 1 Any, mkMod 104 2 1 Arc],
                             unassigned = [] \<rparr>)],
           assignmentEnergyCost = 0, assignmentUnassignedModCount = 0 \<rparr>"
  have l: "slotLoop exampleCollaborators exampleEnergies exampleSockets
     [None, Some (mkMod 102 3 1 Any)] [None, Some (mkMod 104 2 1 Arc)]
     [None, Some (mkMod 100 1 4 Any)] 10000 [helmet, chest] 0 0 [] = Inr (Some (0, ?asg))"
    by code_simp
  have s: "searchBest exampleCollaborators () 0 False [helmet, chest] ?pools = Inr ?best"
    by code_simp
  note t = assigned_pool_order [of exampleCollaborators _ _ _ _ _ exampleEnergies exampleSockets
      "[None, Some (mkMod 102 3 1 Any)]" "[None, Some (mkMod 104 2 1 Arc)]"
      "[None, Some (mkMod 100 1 4 Any)]" 10000 "[helmet, chest]" 0 ?asg "()" 0 False ?pools ?best]
  from t l have a: "\<exists>i. subseq [mkMod 102 3 1 Any, mkMod 104 2 1 Arc, mkMod 100 1 4 Any]
          (List.map_filter id
             [permutationAt [None, Some (mkMod 102 3 1 Any)] i,
              permutationAt [None, Some (mkMod 104 2 1 Arc)] i,
              permutationAt [None, Some (mkMod 100 1 4 Any)] i])"
    by simp
  from t s have b: "\<exists>ap \<in> set (generateModPermutations exampleCollaborators (activityMods ?pools)).
    \<exists>cp \<in> set (generateModPermutations exampleCollaborators (combatMods ?pools)).
    \<exists>gp \<in> set (generateModPermutations exampleCollaborators (generalMods ?pools)).
    \<exists>i. subseq [mkMod 102 3 1 Any, mkMod 104 2 1 Arc]
           (List.map_filter id [permutationAt ap i, permutationAt cp i, permutationAt gp i])"
    by simp
  from l a s b show ?thesis by blast
qed

section \<open>No exception\<close>

lemma find_append_cases:
  "find P (xs @ ys) = (case find P xs of None \<Rightarrow> find P ys | Some x \<Rightarrow> Some x)"
  by (induction xs) auto

lemma find_SomeD: "find P xs = Some x \<Longrightarrow> x \<in> set xs \<and> P x"
  by (induction xs) (auto split: if_splits)

lemma keyBy_foldl:
  "foldl (\<lambda>obj item. obj(itemId item \<mapsto> item)) m items k =
     (case find (\<lambda>item. itemId item = k) (rev items) of None \<Rightarrow> m k | Some item \<Rightarrow> Some item)"
proof (induction items arbitrary: m)
  case Nil
  then show ?case by simp
next
  case (Cons a items)
  have "foldl (\<lambda>obj item. obj(itemId item \<mapsto> item)) (m(itemId a \<mapsto> a)) items k =
     (case find (\<lambda>item. itemId item = k) (rev items) of
        None \<Rightarrow> (m(itemId a \<mapsto> a)) k | Some item \<Rightarrow> Some item)"
    by (rule Cons.IH)
  moreover have "(m(itemId a \<mapsto> a)) k = (if itemId a = k then Some a else m k)"
    by auto
  ultimately show ?case
    by (simp add: find_append_cases del: fun_upd_apply split: option.splits)
qed

lemma keyBy_find:
  "keyBy items k = find (\<lambda>item. itemId item = k) (rev items)"
  by (simp add: keyBy_def keyBy_foldl split: option.splits)

lemma keyBy_range:
  assumes "keyBy items k = Some item"
  shows "item \<in> set items \<and> itemId item = k"
  using find_SomeD[of "\<lambda>item. itemId item = k" "rev items" item] assms
  by (simp add: keyBy_find)

lemma keyBy_defined:
  assumes "item \<in> set items"
  shows "\<exists>item'. keyBy items (itemId item) = Some item'"
proof (cases "find (\<lambda>x. itemId x = itemId item) (rev items)")
  case None
  then show ?thesis using assms by (auto simp: find_None_iff)
next
  case (Some a)
  then show ?thesis by (simp add: keyBy_find)
qed

lemma itemEnergiesOf_defined:
  assumes "item \<in> set items"
  shows "\<exists>e. itemEnergiesOf K d tier lock items specific (itemId item) = Some e"
  using keyBy_defined[OF assms] by (auto simp: itemEnergiesOf_def mapValues_def)

lemma slotLoop_total:
  assumes "\<forall>item \<in> set items. \<exists>e. ie (itemId item) = Some e"
  shows "\<exists>res. slotLoop K ie sm ap cp gp b items i cnt asg = Inr res"
  using assms
proof (induction items arbitrary: i cnt asg)
  case Nil
  then show ?case by simp
next
  case (Cons item rest)
  then obtain e where e: "ie (itemId item) = Some e" by auto
  have r: "\<forall>item \<in> set rest. \<exists>e. ie (itemId item) = Some e" using Cons.prems by simp
  show ?case
    using Cons.IH[OF r] by (simp add: e evalSlotChecked_def)
qed

lemma slotLoop_keys:
  assumes "slotLoop K ie sm ap cp gp b items i cnt asg = Inr (Some (cnt', asg'))"
  shows "fst ` set asg' = fst ` set asg \<union> itemId ` set items"
  using assms
proof (induction items arbitrary: i cnt asg)
  case Nil
  then show ?case by simp
next
  case (Cons item rest)
  from Cons.prems obtain r0 where
    l: "slotLoop K ie sm ap cp gp b rest (Suc i) (cnt + length (unassigned r0))
              (AList.update (itemId item) r0 asg) = Inr (Some (cnt', asg'))"
    by (auto split: sum.splits if_splits)
  from Cons.IH[OF l] show ?case by (auto simp: dom_update)
qed

lemma scoreLoop_total:
  assumes "\<forall>k \<in> fst ` set asg. \<exists>e. ie k = Some e"
  shows "\<exists>v. scoreLoop ie asg acc = Inr v"
  using assms
proof (induction asg arbitrary: acc)
  case Nil
  then show ?case by simp
next
  case (Cons p asg)
  obtain k a where p: "p = (k, a)" by (cases p) auto
  with Cons.prems obtain e where e: "ie k = Some e" by auto
  have "\<forall>k \<in> fst ` set asg. \<exists>e. ie k = Some e" using Cons.prems by auto
  from Cons.IH[OF this] show ?case by (simp add: p e)
qed

lemma tripleStep_total:
  assumes "\<forall>item \<in> set items. \<exists>e. ie (itemId item) = Some e"
  shows "\<exists>best'. tripleStep K ie sm items ap cp best gp = Inr best'"
proof -
  obtain res where
    l: "slotLoop K ie sm ap cp gp (assignmentUnassignedModCount best) items 0 0 [] = Inr res"
    using slotLoop_total[OF assms] by blast
  show ?thesis
  proof (cases res)
    case None
    then show ?thesis using l by (simp add: tripleStep_def)
  next
    case (Some p)
    obtain cnt asg where p: "p = (cnt, asg)" by (cases p) auto
    from slotLoop_keys[OF l[unfolded Some p]] assms
    have "\<forall>k \<in> fst ` set asg. \<exists>e. ie k = Some e" by auto
    from scoreLoop_total[OF this, of 0] obtain v where "scoreLoop ie asg 0 = Inr v" by blast
    then show ?thesis using l Some p by (simp add: tripleStep_def)
  qed
qed

lemma activityLoop_total:
  assumes "\<forall>item \<in> set items. \<exists>e. ie (itemId item) = Some e"
  shows "\<exists>best'. activityLoop K ie sm items aps cps gps best = Inr best'"
  unfolding activityLoop_triples
  by (rule forEach_total) (use tripleStep_total[OF assms] in auto)

lemma searchBest_total:
  "\<exists>best. searchBest K d tier lock items pools = Inr best"
  unfolding searchBest_def
proof (rule activityLoop_total, rule ballI)
  fix item assume "item \<in> set items"
  then show "\<exists>e. itemEnergiesOf K d tier lock items (bucketSpecificAssignments pools)
                (itemId item) = Some e"
    by (rule itemEnergiesOf_defined)
qed

text \<open>
  C6. Without the manifest the function returns an empty map and an empty list. With
  any arguments at all it returns a result: the only place where the module could throw
  is a read of a field of a missing energy record, and the record of every item the
  loops look up is there.
\<close>

theorem no_throw:
  "getCheapestModAssignments K items mods None tier lock = Inr ([], []) \<and>
   (\<exists>res. getCheapestModAssignments K items mods defs tier lock = Inr res)"
proof -
  have "\<exists>res. getCheapestModAssignments K items mods defs tier lock = Inr res"
  proof (cases defs)
    case None
    then show ?thesis by (simp add: getCheapestModAssignments_def)
  next
    case (Some d)
    obtain best where
      "searchBest K d tier lock items (divideMods K d tier lock items mods) = Inr best"
      using searchBest_total[of K d tier lock items "divideMods K d tier lock items mods"]
      by blast
    then show ?thesis using Some by (simp add: getCheapestModAssignments_def Let_def)
  qed
  then show ?thesis by (simp add: getCheapestModAssignments_def)
qed


theorem no_throw_witness:
  "getCheapestModAssignments exampleCollaborators [helmet] [mkMod 100 1 4 Any] None 0 False =
     Inr ([], []) \<and>
   (\<exists>res. getCheapestModAssignments exampleCollaborators [helmet] [mkMod 100 1 4 Any] (Some ())
            0 False = Inr res)"
  using no_throw [of exampleCollaborators "[helmet]" "[mkMod 100 1 4 Any]" 0 False "Some ()"]
  by simp

section \<open>The merged result\<close>

lemma mergeResults_foldl:
  "map_of (fst (foldl (mergeItem independent specific) acc items)) k =
     (if k \<in> itemId ` set items
      then Some (assignedAt independent k @ assignedAt specific k)
      else map_of (fst acc) k)"
proof (induction items arbitrary: acc)
  case Nil
  then show ?case by simp
next
  case (Cons a items)
  have "map_of (fst (mergeItem independent specific acc a)) k' =
          (if k' = itemId a then Some (assignedAt independent k' @ assignedAt specific k')
           else map_of (fst acc) k')" for k'
    by (simp add: mergeItem_def update_conv')
  then show ?case by (auto simp: Cons.IH)
qed

lemma mergeResults_lookup:
  "map_of (fst (mergeResults items independent specific)) k =
     (if k \<in> itemId ` set items
      then Some (assignedAt independent k @ assignedAt specific k) else None)"
  by (simp add: mergeResults_def mergeResults_foldl)

lemma mergeResults_unassigned_foldl:
  "snd (foldl (mergeItem independent specific) acc items) =
     snd acc @ concat (map (\<lambda>item. unassignedAt independent (itemId item) @
                                  unassignedAt specific (itemId item)) items)"
proof (induction items arbitrary: acc)
  case Nil
  then show ?case by simp
next
  case (Cons a items)
  have "snd (mergeItem independent specific acc a) =
          snd acc @ unassignedAt independent (itemId a) @ unassignedAt specific (itemId a)"
    by (simp add: mergeItem_def)
  then show ?case by (simp add: Cons.IH)
qed

lemma mergeResults_unassigned:
  "snd (mergeResults items independent specific) =
     concat (map (\<lambda>item. unassignedAt independent (itemId item) @
                        unassignedAt specific (itemId item)) items)"
  by (simp add: mergeResults_def mergeResults_unassigned_foldl)

lemma getCheapestModAssignments_Some:
  "\<exists>best. searchBest K d tier lock items (divideMods K d tier lock items mods) = Inr best \<and>
     getCheapestModAssignments K items mods (Some d) tier lock =
       Inr (mergeResults items (bucketIndependentAssignments best)
              (bucketSpecificAssignments (divideMods K d tier lock items mods)))"
proof -
  obtain best where
    "searchBest K d tier lock items (divideMods K d tier lock items mods) = Inr best"
    using searchBest_total[of K d tier lock items "divideMods K d tier lock items mods"]
    by blast
  then show ?thesis by (simp add: getCheapestModAssignments_def Let_def)
qed

text \<open>
  C1, as the code has it. With a manifest the function returns a result in which every
  item's list is the assigned list of the search winner for that item followed by the
  assigned list of the bucket specific pass: the search-derived mods come first.
\<close>

theorem merge_order:
  "\<exists>best res.
     searchBest K d tier lock items (divideMods K d tier lock items mods) = Inr best \<and>
     getCheapestModAssignments K items mods (Some d) tier lock = Inr res \<and>
     (\<forall>item \<in> set items.
        map_of (fst res) (itemId item) =
          Some (assignedAt (bucketIndependentAssignments best) (itemId item) @
                assignedAt (bucketSpecificAssignments (divideMods K d tier lock items mods))
                  (itemId item)))"
proof -
  obtain best where
    b: "searchBest K d tier lock items (divideMods K d tier lock items mods) = Inr best"
    and g: "getCheapestModAssignments K items mods (Some d) tier lock =
       Inr (mergeResults items (bucketIndependentAssignments best)
              (bucketSpecificAssignments (divideMods K d tier lock items mods)))"
    using getCheapestModAssignments_Some[of K d tier lock items mods] by blast
  show ?thesis
    using b g by (auto simp: mergeResults_lookup)
qed

text \<open>
  A helmet with a general mod and a helmet mod, both of which fit: the helmet mod is the
  assigned list of the bucket specific pass, the general mod that of the search winner,
  and the result lists the general mod first.
\<close>

theorem merge_order_witness:
  "searchBest exampleCollaborators () 0 False [helmet]
     (divideMods exampleCollaborators () 0 False [helmet] [mkMod 101 4 1 Any, mkMod 100 1 4 Any]) =
     Inr \<lparr> bucketIndependentAssignments =
             [(''helmet'', \<lparr> assigned = [mkMod 100 1 4 Any], unassigned = [] \<rparr>)],
           assignmentEnergyCost = 0, assignmentUnassignedModCount = 0 \<rparr> \<and>
   getCheapestModAssignments exampleCollaborators [helmet] [mkMod 101 4 1 Any, mkMod 100 1 4 Any]
     (Some ()) 0 False = Inr ([(''helmet'', [mkMod 100 1 4 Any, mkMod 101 4 1 Any])], []) \<and>
   map_of [(''helmet'', [mkMod 100 1 4 Any, mkMod 101 4 1 Any])] (itemId helmet) =
     Some (assignedAt [(''helmet'', \<lparr> assigned = [mkMod 100 1 4 Any], unassigned = [] \<rparr>)]
             (itemId helmet) @
           assignedAt (bucketSpecificAssignments
               (divideMods exampleCollaborators () 0 False [helmet]
                  [mkMod 101 4 1 Any, mkMod 100 1 4 Any])) (itemId helmet))"
proof -
  let ?mods = "[mkMod 101 4 1 Any, mkMod 100 1 4 Any]"
  let ?best = "\<lparr> bucketIndependentAssignments =
             [(''helmet'', \<lparr> assigned = [mkMod 100 1 4 Any], unassigned = [] \<rparr>)],
           assignmentEnergyCost = 0, assignmentUnassignedModCount = 0 \<rparr>"
  have s: "searchBest exampleCollaborators () 0 False [helmet]
     (divideMods exampleCollaborators () 0 False [helmet] ?mods) = Inr ?best"
    by code_simp
  have g: "getCheapestModAssignments exampleCollaborators [helmet] ?mods (Some ()) 0 False =
     Inr ([(''helmet'', [mkMod 100 1 4 Any, mkMod 101 4 1 Any])], [])"
    by code_simp
  from merge_order [of exampleCollaborators "()" 0 False "[helmet]" ?mods] s g
  show ?thesis by auto
qed

text \<open>
  The claim as stated fails on the same input: the bucket specific list followed by the
  search winner's list would put the helmet mod first.
\<close>

theorem merge_order_counterexample:
  "getCheapestModAssignments exampleCollaborators [helmet] [mkMod 101 4 1 Any, mkMod 100 1 4 Any]
     (Some ()) 0 False = Inr ([(''helmet'', [mkMod 100 1 4 Any, mkMod 101 4 1 Any])], []) \<and>
   assignedAt (bucketSpecificAssignments
       (divideMods exampleCollaborators () 0 False [helmet]
          [mkMod 101 4 1 Any, mkMod 100 1 4 Any])) ''helmet'' = [mkMod 101 4 1 Any] \<and>
   searchBest exampleCollaborators () 0 False [helmet]
     (divideMods exampleCollaborators () 0 False [helmet] [mkMod 101 4 1 Any, mkMod 100 1 4 Any]) =
     Inr \<lparr> bucketIndependentAssignments =
             [(''helmet'', \<lparr> assigned = [mkMod 100 1 4 Any], unassigned = [] \<rparr>)],
           assignmentEnergyCost = 0, assignmentUnassignedModCount = 0 \<rparr> \<and>
   [mkMod 100 1 4 Any, mkMod 101 4 1 Any] \<noteq> [mkMod 101 4 1 Any] @ [mkMod 100 1 4 Any]"
  by code_simp

section \<open>The bucket specific pass\<close>

lemma foldl_invariant:
  assumes "P s" and "\<And>t x. x \<in> set xs \<Longrightarrow> P t \<Longrightarrow> P (f t x)"
  shows "P (foldl f s xs)"
  using assms by (induction xs arbitrary: s) auto

lemma sumBy_append: "sumBy (xs @ ys) = sumBy xs + sumBy ys"
  by (simp add: sumBy_def)

lemma assignedAt_pushAssigned:
  "assignedAt (pushAssigned k m al) k' =
     (if k' = k \<and> map_of al k \<noteq> None then assignedAt al k @ [m] else assignedAt al k')"
  by (auto simp: assignedAt_def pushAssigned_def update_conv' split: option.splits)

lemma assignedAt_pushUnassigned: "assignedAt (pushUnassigned k m al) k' = assignedAt al k'"
  by (auto simp: assignedAt_def pushUnassigned_def update_conv' split: option.splits)

lemma unassignedAt_pushAssigned: "unassignedAt (pushAssigned k m al) k' = unassignedAt al k'"
  by (auto simp: unassignedAt_def pushAssigned_def update_conv' split: option.splits)

lemma unassignedAt_pushUnassigned:
  "unassignedAt (pushUnassigned k m al) k' =
     (if k' = k \<and> map_of al k \<noteq> None then unassignedAt al k @ [m] else unassignedAt al k')"
  by (auto simp: unassignedAt_def pushUnassigned_def update_conv' split: option.splits)

lemma assignedAt_initAssignments: "assignedAt (initAssignments items) k = []"
proof (cases "map_of (initAssignments items) k")
  case None
  then show ?thesis by (simp add: assignedAt_def)
next
  case (Some a)
  then have "(k, a) \<in> set (initAssignments items)" by (rule map_of_SomeD)
  with set_initAssignments[of items] have "a = \<lparr> assigned = [], unassigned = [] \<rparr>" by auto
  with Some show ?thesis by (simp add: assignedAt_def)
qed

lemma unassignedAt_initAssignments: "unassignedAt (initAssignments items) k = []"
proof (cases "map_of (initAssignments items) k")
  case None
  then show ?thesis by (simp add: unassignedAt_def)
next
  case (Some a)
  then have "(k, a) \<in> set (initAssignments items)" by (rule map_of_SomeD)
  with set_initAssignments[of items] have "a = \<lparr> assigned = [], unassigned = [] \<rparr>" by auto
  with Some show ?thesis by (simp add: unassignedAt_def)
qed

lemma distinct_itemId_eq:
  assumes "distinct (map itemId items)" "a \<in> set items" "b \<in> set items" "itemId a = itemId b"
  shows "a = b"
  using assms by (meson distinct_map inj_onD)

lemma divideMod_capacity:
  assumes d: "distinct (map itemId items)"
      and inv: "\<forall>item \<in> set items.
             sumBy (assignedAt (bucketSpecificAssignments st) (itemId item))
               \<le> upgradeSpendTierToMaxEnergy K defs tier item"
  shows "\<forall>item \<in> set items.
           sumBy (assignedAt (bucketSpecificAssignments (divideMod K defs tier lock items st m))
                    (itemId item))
             \<le> upgradeSpendTierToMaxEnergy K defs tier item"
proof (cases "find (\<lambda>item. Some (plugCategoryHash (plug m)) = bucketsToCategories K (bucketHash item))
                items")
  case None
  then show ?thesis using inv by (simp add: divideMod_def)
next
  case (Some itemForMod)
  then have mem: "itemForMod \<in> set items" using find_SomeD by fastforce
  show ?thesis
  proof (cases "isBucketSpecificModValid K defs tier lock itemForMod m
                  (assignedAt (bucketSpecificAssignments st) (itemId itemForMod))")
    case False
    then show ?thesis using inv Some by (simp add: divideMod_def assignedAt_pushUnassigned)
  next
    case True
    then have fit: "sumBy (assignedAt (bucketSpecificAssignments st) (itemId itemForMod)) +
                      modCostOf m \<le> upgradeSpendTierToMaxEnergy K defs tier itemForMod"
      by (simp add: isBucketSpecificModValid_def Let_def)
    have "sumBy (assignedAt (pushAssigned (itemId itemForMod) m (bucketSpecificAssignments st))
                   (itemId item))
            \<le> upgradeSpendTierToMaxEnergy K defs tier item" if i: "item \<in> set items" for item
    proof (cases "itemId item = itemId itemForMod")
      case True
      then have "item = itemForMod" using distinct_itemId_eq[OF d i mem] by simp
      then show ?thesis using fit inv i
        by (simp add: assignedAt_pushAssigned sumBy_append sumBy_def)
    next
      case False
      then show ?thesis using inv i by (simp add: assignedAt_pushAssigned)
    qed
    then show ?thesis using inv Some True by (simp add: divideMod_def)
  qed
qed

lemma divideMods_capacity:
  assumes "distinct (map itemId items)"
  shows "\<forall>item \<in> set items.
           sumBy (assignedAt (bucketSpecificAssignments (divideMods K defs tier lock items mods))
                    (itemId item))
             \<le> upgradeSpendTierToMaxEnergy K defs tier item"
  unfolding divideMods_def
proof (rule foldl_invariant[where P = "\<lambda>st. \<forall>item \<in> set items.
             sumBy (assignedAt (bucketSpecificAssignments st) (itemId item))
               \<le> upgradeSpendTierToMaxEnergy K defs tier item"])
  show "\<forall>item \<in> set items.
          sumBy (assignedAt (bucketSpecificAssignments
                   \<lparr> generalMods = [], combatMods = [], activityMods = [],
                     bucketSpecificAssignments = initAssignments items \<rparr>) (itemId item))
            \<le> upgradeSpendTierToMaxEnergy K defs tier item"
    by (simp add: assignedAt_initAssignments sumBy_def)
next
  fix t :: ModPools and x
  assume "\<forall>item \<in> set items.
             sumBy (assignedAt (bucketSpecificAssignments t) (itemId item))
               \<le> upgradeSpendTierToMaxEnergy K defs tier item"
  then show "\<forall>item \<in> set items.
             sumBy (assignedAt (bucketSpecificAssignments (divideMod K defs tier lock items t x))
                      (itemId item))
               \<le> upgradeSpendTierToMaxEnergy K defs tier item"
    by (rule divideMod_capacity[OF assms])
qed

section \<open>Capacity in the search\<close>

lemma keyBy_distinct:
  assumes "distinct (map itemId items)" "item \<in> set items"
  shows "keyBy items (itemId item) = Some item"
proof -
  obtain item' where k: "keyBy items (itemId item) = Some item'"
    using keyBy_defined[OF assms(2)] by blast
  from keyBy_range[OF k] have "item' \<in> set items" "itemId item' = itemId item" by simp_all
  then have "item' = item" using distinct_itemId_eq[OF assms(1) _ assms(2)] by blast
  with k show ?thesis by simp
qed

lemma itemEnergiesOf_SomeD:
  assumes "itemEnergiesOf K d tier lock items specific k = Some e"
  shows "\<exists>item \<in> set items. itemId item = k \<and>
           e = buildItemEnergy K d item (assignedAt specific k) tier lock"
proof -
  from assms obtain item where k: "keyBy items k = Some item"
    and e: "e = buildItemEnergy K d item (assignedAt specific (itemId item)) tier lock"
    by (auto simp: itemEnergiesOf_def mapValues_def)
  from keyBy_range[OF k] e show ?thesis by auto
qed

lemma evalSlot_capacity:
  assumes rule: "\<And>e m as. isModEnergyValid K e m as \<Longrightarrow>
                   used e + sumBy as + modCostOf m \<le> derivedCapacity e"
      and base: "used e \<le> derivedCapacity e"
  shows "used e + sumBy (assigned (evalSlot K e md a c g)) \<le> derivedCapacity e"
proof -
  define r0 where "r0 = \<lparr> assigned = [], unassigned = [] \<rparr>"
  define r1 where "r1 = (case a of
                  None \<Rightarrow> r0
                | Some m \<Rightarrow>
                    if isActivityModValid K m md e
                    then r0\<lparr> assigned := assigned r0 @ [m] \<rparr>
                    else r0\<lparr> unassigned := unassigned r0 @ [m] \<rparr>)"
  define r2 where "r2 = (case c of
                  None \<Rightarrow> r1
                | Some m \<Rightarrow>
                    if isCombatModValid K m (assigned r1) md e
                    then r1\<lparr> assigned := assigned r1 @ [m] \<rparr>
                    else r1\<lparr> unassigned := unassigned r1 @ [m] \<rparr>)"
  define r3 where "r3 = (case g of
                  None \<Rightarrow> r2
                | Some m \<Rightarrow>
                    if isModEnergyValid K e m (assigned r2)
                    then r2\<lparr> assigned := assigned r2 @ [m] \<rparr>
                    else r2\<lparr> unassigned := unassigned r2 @ [m] \<rparr>)"
  have e: "evalSlot K e md a c g = r3"
    by (simp only: evalSlot_def Let_def r0_def r1_def r2_def r3_def)
  have rule': "used e + (sum_list (map modCostOf as) + modCostOf m) \<le> derivedCapacity e"
    if "isModEnergyValid K e m as" for m as
    using rule[OF that] by (simp add: sumBy_def)
  have p1: "used e + sumBy (assigned r1) \<le> derivedCapacity e"
    using base rule'[of _ "[]"]
    by (auto simp: r0_def r1_def isActivityModValid_def sumBy_def split: option.splits)
  have p2: "used e + sumBy (assigned r2) \<le> derivedCapacity e"
    using p1 rule'[of _ "assigned r1"]
    by (auto simp: r2_def isCombatModValid_def sumBy_def split: option.splits)
  have p3: "used e + sumBy (assigned r3) \<le> derivedCapacity e"
    using p2 rule'[of _ "assigned r2"]
    by (auto simp: r3_def sumBy_def split: option.splits)
  show ?thesis using p3 e by simp
qed


lemma evalSlotChecked_capacity:
  assumes rule: "\<And>e m as. isModEnergyValid K e m as \<Longrightarrow>
                   used e + sumBy as + modCostOf m \<le> derivedCapacity e"
      and base: "used e \<le> derivedCapacity e"
      and ev: "evalSlotChecked K (Some e) md a c g = Inr r"
  shows "used e + sumBy (assigned r) \<le> derivedCapacity e"
proof -
  have "used e + sumBy (assigned (evalSlot K e md a c g)) \<le> derivedCapacity e"
    by (rule evalSlot_capacity) (use rule base in auto)
  then show ?thesis using ev by (auto simp: evalSlotChecked_def)
qed

lemma tripleStep_entries:
  assumes "tripleStep K ie sm items ap cp best gp = Inr best'"
      and "(k, r) \<in> set (bucketIndependentAssignments best')"
  shows "(k, r) \<in> set (bucketIndependentAssignments best) \<or>
         (\<exists>j < length items. k = itemId (items ! j) \<and>
            evalSlotChecked K (ie k) (socketMetadataAt sm k) (permutationAt ap j)
              (permutationAt cp j) (permutationAt gp j) = Inr r)"
proof (cases "best' = best")
  case True
  then show ?thesis using assms(2) by simp
next
  case False
  with assms(1) obtain cnt where
    "slotLoop K ie sm ap cp gp (assignmentUnassignedModCount best) items 0 0 [] =
       Inr (Some (cnt, bucketIndependentAssignments best'))"
    by (auto simp: tripleStep_def split: sum.splits option.splits if_splits)
  from slotLoop_entries[OF this assms(2)] show ?thesis by simp
qed

lemma activityLoop_capacity:
  assumes rule: "\<forall>e m as. isModEnergyValid K e m as \<longrightarrow>
                   used e + sumBy as + modCostOf m \<le> derivedCapacity e"
      and base: "\<forall>k e. ie k = Some e \<longrightarrow> used e \<le> derivedCapacity e"
      and run: "activityLoop K ie sm items aps cps gps best = Inr best'"
      and init: "\<forall>(k, r) \<in> set (bucketIndependentAssignments best). assigned r = []"
      and kr: "(k, r) \<in> set (bucketIndependentAssignments best')"
      and e: "ie k = Some e"
  shows "used e + sumBy (assigned r) \<le> derivedCapacity e"
proof -
  let ?P = "\<lambda>s. \<forall>(k, r) \<in> set (bucketIndependentAssignments s).
                \<forall>e. ie k = Some e \<longrightarrow> used e + sumBy (assigned r) \<le> derivedCapacity e"
  have f: "forEach (\<lambda>b (ap, cp, gp). tripleStep K ie sm items ap cp b gp) best
             (allTriples aps cps gps) = Inr best'"
    using run by (simp add: activityLoop_triples)
  have p0: "?P best" using init base by (auto simp: sumBy_def)
  have "?P best'"
  proof (rule forEach_invariant[OF f, where P = ?P, OF p0])
    fix t x t'
    assume pt: "?P t"
      and st: "(case x of (ap, cp, gp) \<Rightarrow> tripleStep K ie sm items ap cp t gp) = Inr t'"
    obtain ap cp gp where xe: "x = (ap, cp, gp)" by (cases x) auto
    from st xe have ts: "tripleStep K ie sm items ap cp t gp = Inr t'" by simp
    show "?P t'"
    proof (clarify)
      fix k r e
      assume kr: "(k, r) \<in> set (bucketIndependentAssignments t')" and e: "ie k = Some e"
      from tripleStep_entries[OF ts kr]
      show "used e + sumBy (assigned r) \<le> derivedCapacity e"
      proof
        assume "(k, r) \<in> set (bucketIndependentAssignments t)"
        with pt e show ?thesis by blast
      next
        assume "\<exists>j < length items. k = itemId (items ! j) \<and>
            evalSlotChecked K (ie k) (socketMetadataAt sm k) (permutationAt ap j)
              (permutationAt cp j) (permutationAt gp j) = Inr r"
        then have "\<exists>j.
          evalSlotChecked K (Some e) (socketMetadataAt sm k) (permutationAt ap j)
              (permutationAt cp j) (permutationAt gp j) = Inr r"
          using e by auto
        moreover have "used e \<le> derivedCapacity e" using base e by blast
        ultimately show ?thesis using rule evalSlotChecked_capacity by blast
      qed
    qed
  qed
  with kr e show ?thesis by blast
qed

lemma isModEnergyValid_spec_capacity:
  "isModEnergyValid_spec e m as \<Longrightarrow> used e + sumBy as + modCostOf m \<le> derivedCapacity e"
  by (simp add: isModEnergyValid_spec_def)

text \<open>
  C7, as the code has it. Let the validity predicate for the shared pools be the one
  the specification describes, and let the items have pairwise distinct ids. Then the function returns a
  result in which every item has a list, and the costs of the mods in that list add up
  to at most the item's derived capacity, which is the value of
  \<open>upgradeSpendTierToMaxEnergy\<close> for the item.
\<close>

theorem capacity_invariant:
  assumes "isModEnergyValid K = isModEnergyValid_spec"
      and "distinct (map itemId items)"
  shows "\<exists>res. getCheapestModAssignments K items mods (Some d) tier lock = Inr res \<and>
           (\<forall>item \<in> set items. \<exists>ms.
              map_of (fst res) (itemId item) = Some ms \<and>
              sumBy ms \<le> upgradeSpendTierToMaxEnergy K d tier item \<and>
              derivedCapacity (buildItemEnergy K d item
                (assignedAt (bucketSpecificAssignments (divideMods K d tier lock items mods))
                   (itemId item)) tier lock) = upgradeSpendTierToMaxEnergy K d tier item)"
proof -
  let ?pools = "divideMods K d tier lock items mods"
  let ?bs = "bucketSpecificAssignments ?pools"
  let ?ie = "itemEnergiesOf K d tier lock items ?bs"
  obtain best where
    b: "searchBest K d tier lock items ?pools = Inr best"
    and g: "getCheapestModAssignments K items mods (Some d) tier lock =
       Inr (mergeResults items (bucketIndependentAssignments best) ?bs)"
    using getCheapestModAssignments_Some[of K d tier lock items mods] by blast
  have rule: "\<forall>e m as. isModEnergyValid K e m as \<longrightarrow>
                   used e + sumBy as + modCostOf m \<le> derivedCapacity e"
    using assms(1) isModEnergyValid_spec_capacity by simp
  have pre: "\<forall>item \<in> set items.
           sumBy (assignedAt ?bs (itemId item)) \<le> upgradeSpendTierToMaxEnergy K d tier item"
    by (rule divideMods_capacity[OF assms(2)])
  have base: "\<forall>k e. ?ie k = Some e \<longrightarrow> used e \<le> derivedCapacity e"
  proof (intro allI impI)
    fix k e assume "?ie k = Some e"
    from itemEnergiesOf_SomeD[OF this] obtain item where
      "item \<in> set items" "itemId item = k"
      "e = buildItemEnergy K d item (assignedAt ?bs k) tier lock"
      by blast
    with pre show "used e \<le> derivedCapacity e" by (auto simp: buildItemEnergy_def)
  qed
  have init: "\<forall>(k, r) \<in> set (bucketIndependentAssignments (initialState items)). assigned r = []"
    using set_initAssignments[of items] by (auto simp: initialState_def)
  have bound: "sumBy (assignedAt (bucketIndependentAssignments best) (itemId item) @
                 assignedAt ?bs (itemId item)) \<le> upgradeSpendTierToMaxEnergy K d tier item"
    if i: "item \<in> set items" for item
  proof -
    have e: "?ie (itemId item) =
               Some (buildItemEnergy K d item (assignedAt ?bs (itemId item)) tier lock)"
      using keyBy_distinct[OF assms(2) i] by (simp add: itemEnergiesOf_def mapValues_def)
    show ?thesis
    proof (cases "map_of (bucketIndependentAssignments best) (itemId item)")
      case None
      then show ?thesis using pre i by (simp add: assignedAt_def)
    next
      case (Some r)
      then have "(itemId item, r) \<in> set (bucketIndependentAssignments best)"
        by (rule map_of_SomeD)
      from activityLoop_capacity[OF rule base b[unfolded searchBest_def] init this e]
      show ?thesis using Some
        by (simp add: assignedAt_def buildItemEnergy_def sumBy_append)
    qed
  qed
  show ?thesis
    using g bound by (auto simp: mergeResults_lookup buildItemEnergy_def)
qed


text \<open>
  A helmet and a chest piece, a helmet mod of cost one, a chest mod of cost eight and two
  general mods of cost four and seven: each of the two lists stays within ten.
\<close>

theorem capacity_invariant_witness:
  "isModEnergyValid exampleCollaborators = isModEnergyValid_spec \<and>
   distinct (map itemId [helmet, chest]) \<and>
   getCheapestModAssignments exampleCollaborators [helmet, chest]
     [mkMod 101 4 1 Any, mkMod 108 5 8 Any, mkMod 100 1 4 Any] (Some ()) 0 False =
     Inr ([(''helmet'', [mkMod 100 1 4 Any, mkMod 101 4 1 Any]), (''chest'', [mkMod 108 5 8 Any])],
          []) \<and>
   (\<exists>ms. map_of [(''helmet'', [mkMod 100 1 4 Any, mkMod 101 4 1 Any]),
                  (''chest'', [mkMod 108 5 8 Any])] (itemId chest) = Some ms \<and>
         sumBy ms \<le> upgradeSpendTierToMaxEnergy exampleCollaborators () 0 chest)"
proof -
  let ?mods = "[mkMod 101 4 1 Any, mkMod 108 5 8 Any, mkMod 100 1 4 Any]"
  have h1: "isModEnergyValid exampleCollaborators = isModEnergyValid_spec"
    by (simp add: exampleCollaborators_def)
  have h2: "distinct (map itemId [helmet, chest])"
    by (simp add: helmet_def chest_def)
  have g: "getCheapestModAssignments exampleCollaborators [helmet, chest] ?mods (Some ()) 0 False =
     Inr ([(''helmet'', [mkMod 100 1 4 Any, mkMod 101 4 1 Any]), (''chest'', [mkMod 108 5 8 Any])],
          [])"
    by code_simp
  from capacity_invariant [OF h1 h2, of ?mods "()" 0 False] obtain res where
    r: "getCheapestModAssignments exampleCollaborators [helmet, chest] ?mods (Some ()) 0 False =
          Inr res"
    and a: "\<forall>item \<in> set [helmet, chest]. \<exists>ms.
              map_of (fst res) (itemId item) = Some ms \<and>
              sumBy ms \<le> upgradeSpendTierToMaxEnergy exampleCollaborators () 0 item \<and>
              derivedCapacity (buildItemEnergy exampleCollaborators () item
                (assignedAt (bucketSpecificAssignments
                   (divideMods exampleCollaborators () 0 False [helmet, chest] ?mods))
                   (itemId item)) 0 False) =
                upgradeSpendTierToMaxEnergy exampleCollaborators () 0 item"
    by blast
  have e: "fst res = [(''helmet'', [mkMod 100 1 4 Any, mkMod 101 4 1 Any]),
                      (''chest'', [mkMod 108 5 8 Any])]"
    using r g by simp
  have "chest \<in> set [helmet, chest]" by simp
  with a have "\<exists>ms. map_of (fst res) (itemId chest) = Some ms \<and>
         sumBy ms \<le> upgradeSpendTierToMaxEnergy exampleCollaborators () 0 chest"
    by blast
  then have "\<exists>ms. map_of [(''helmet'', [mkMod 100 1 4 Any, mkMod 101 4 1 Any]),
                  (''chest'', [mkMod 108 5 8 Any])] (itemId chest) = Some ms \<and>
         sumBy ms \<le> upgradeSpendTierToMaxEnergy exampleCollaborators () 0 chest"
    unfolding e .
  with h1 h2 g show ?thesis by blast
qed

text \<open>
  Without distinct ids the bound can fail. Two items share the id \<open>twin\<close>: a helmet that
  can hold ten energy and a chest piece that can hold one. A helmet mod of cost five is
  checked against the helmet and recorded under the shared id, whose energy record is
  the chest piece's, of derived capacity one.
\<close>

theorem capacity_invariant_counterexample:
  "getCheapestModAssignments ownCapacityCollaborators [twinHelmet, twinChest]
     [mkMod 101 4 5 Any] (Some ()) 0 False = Inr ([(''twin'', [mkMod 101 4 5 Any])], []) \<and>
   map_option derivedCapacity
     (itemEnergiesOf ownCapacityCollaborators () 0 False [twinHelmet, twinChest]
        (bucketSpecificAssignments
           (divideMods ownCapacityCollaborators () 0 False [twinHelmet, twinChest]
              [mkMod 101 4 5 Any])) ''twin'') = Some 1 \<and>
   upgradeSpendTierToMaxEnergy ownCapacityCollaborators () 0 twinChest = 1 \<and>
   \<not> sumBy [mkMod 101 4 5 Any] \<le> 1"
  by code_simp

section \<open>Conservation in the bucket specific pass\<close>

lemma sum_list_one_more:
  fixes F :: "'a \<Rightarrow> 'b multiset"
  assumes "distinct (map f xs)" "x0 \<in> set xs"
  shows "(\<Sum>x\<leftarrow>xs. if f x = f x0 then F x + {#m#} else F x) = (\<Sum>x\<leftarrow>xs. F x) + {#m#}"
  using assms
proof (induction xs)
  case Nil
  then show ?case by simp
next
  case (Cons a xs)
  show ?case
  proof (cases "a = x0")
    case True
    then have "\<forall>x \<in> set xs. f x \<noteq> f x0" using Cons.prems(1) by (metis distinct.simps(2) image_eqI list.simps(9) set_map)
    then have "(\<Sum>x\<leftarrow>xs. if f x = f x0 then F x + {#m#} else F x) = (\<Sum>x\<leftarrow>xs. F x)"
      by (intro arg_cong[where f = sum_list] map_cong) auto
    then show ?thesis using True by simp
  next
    case False
    then have "x0 \<in> set xs" using Cons.prems(2) by simp
    moreover have "f a \<noteq> f x0" using Cons.prems(1) calculation
      by (metis distinct.simps(2) image_eqI list.simps(9) set_map)
    ultimately show ?thesis using Cons by simp
  qed
qed

lemma keys_initAssignments: "fst ` set (initAssignments items) = itemId ` set items"
proof -
  have "fst ` set (foldl (\<lambda>al item. AList.update (itemId item) \<lparr> assigned = [], unassigned = [] \<rparr> al)
                     al0 items) = fst ` set al0 \<union> itemId ` set items" for al0
    by (induction items arbitrary: al0) (auto simp: dom_update)
  from this[of "[]"] show ?thesis by (simp add: initAssignments_def)
qed

lemma map_of_defined_iff: "map_of al k \<noteq> None \<longleftrightarrow> k \<in> fst ` set al"
  by (simp add: map_of_eq_None_iff)

lemma keys_pushAssigned: "fst ` set (pushAssigned k m al) = fst ` set al"
  by (auto simp: pushAssigned_def dom_update map_of_eq_None_iff split: option.splits
           dest: map_of_SomeD intro: rev_image_eqI)

lemma keys_pushUnassigned: "fst ` set (pushUnassigned k m al) = fst ` set al"
  by (auto simp: pushUnassigned_def dom_update map_of_eq_None_iff split: option.splits
           dest: map_of_SomeD intro: rev_image_eqI)

lemma modsPlaced_pushAssigned:
  assumes "distinct (map itemId items)" "item0 \<in> set items" "itemId item0 \<in> fst ` set al"
  shows "modsPlaced (pushAssigned (itemId item0) m al) items = modsPlaced al items + {#m#}"
proof -
  have d: "map_of al (itemId item0) \<noteq> None" using assms(3) by (simp add: map_of_eq_None_iff)
  have "modsPlaced (pushAssigned (itemId item0) m al) items =
          (\<Sum>item\<leftarrow>items. if itemId item = itemId item0
             then (mset (assignedAt al (itemId item)) + mset (unassignedAt al (itemId item))) + {#m#}
             else mset (assignedAt al (itemId item)) + mset (unassignedAt al (itemId item)))"
    unfolding modsPlaced_def
    by (intro arg_cong[where f = sum_list] map_cong)
       (use d in \<open>auto simp: assignedAt_pushAssigned unassignedAt_pushAssigned\<close>)
  also have "\<dots> = modsPlaced al items + {#m#}"
    unfolding modsPlaced_def by (rule sum_list_one_more[OF assms(1,2)])
  finally show ?thesis .
qed

lemma modsPlaced_pushUnassigned:
  assumes "distinct (map itemId items)" "item0 \<in> set items" "itemId item0 \<in> fst ` set al"
  shows "modsPlaced (pushUnassigned (itemId item0) m al) items = modsPlaced al items + {#m#}"
proof -
  have d: "map_of al (itemId item0) \<noteq> None" using assms(3) by (simp add: map_of_eq_None_iff)
  have "modsPlaced (pushUnassigned (itemId item0) m al) items =
          (\<Sum>item\<leftarrow>items. if itemId item = itemId item0
             then (mset (assignedAt al (itemId item)) + mset (unassignedAt al (itemId item))) + {#m#}
             else mset (assignedAt al (itemId item)) + mset (unassignedAt al (itemId item)))"
    unfolding modsPlaced_def
    by (intro arg_cong[where f = sum_list] map_cong)
       (use d in \<open>auto simp: assignedAt_pushUnassigned unassignedAt_pushUnassigned\<close>)
  also have "\<dots> = modsPlaced al items + {#m#}"
    unfolding modsPlaced_def by (rule sum_list_one_more[OF assms(1,2)])
  finally show ?thesis .
qed

lemma modsPlaced_initAssignments: "modsPlaced (initAssignments items') items = {#}"
  by (simp add: modsPlaced_def assignedAt_initAssignments unassignedAt_initAssignments)

lemma divideMod_conserves:
  assumes d: "distinct (map itemId items)"
      and keys: "fst ` set (bucketSpecificAssignments st) = itemId ` set items"
      and target: "plugCategoryHash (plug m) \<noteq> armor2General K \<and>
                   plugCategoryHash (plug m) \<notin> set (combatCompatiblePlugCategoryHashes K) \<and>
                   plugCategoryHash (plug m) \<notin> set (activityModPlugCategoryHashes K) \<longrightarrow>
                   (\<exists>item \<in> set items.
                      Some (plugCategoryHash (plug m)) = bucketsToCategories K (bucketHash item))"
  shows "fst ` set (bucketSpecificAssignments (divideMod K defs tier lock items st m)) =
           itemId ` set items \<and>
         mset (generalMods (divideMod K defs tier lock items st m)) +
         mset (combatMods (divideMod K defs tier lock items st m)) +
         mset (activityMods (divideMod K defs tier lock items st m)) +
         modsPlaced (bucketSpecificAssignments (divideMod K defs tier lock items st m)) items =
         mset (generalMods st) + mset (combatMods st) + mset (activityMods st) +
         modsPlaced (bucketSpecificAssignments st) items + {#m#}"
proof (cases "plugCategoryHash (plug m) = armor2General K \<or>
              plugCategoryHash (plug m) \<in> set (combatCompatiblePlugCategoryHashes K) \<or>
              plugCategoryHash (plug m) \<in> set (activityModPlugCategoryHashes K)")
  case True
  then show ?thesis using keys by (auto simp: divideMod_def)
next
  case False
  with target obtain item where
    "item \<in> set items" "Some (plugCategoryHash (plug m)) = bucketsToCategories K (bucketHash item)"
    by blast
  then obtain itemForMod where
    f: "find (\<lambda>item. Some (plugCategoryHash (plug m)) = bucketsToCategories K (bucketHash item))
          items = Some itemForMod"
    by (cases "find (\<lambda>item. Some (plugCategoryHash (plug m)) =
                  bucketsToCategories K (bucketHash item)) items")
       (auto simp: find_None_iff)
  then have mem: "itemForMod \<in> set items" using find_SomeD by fastforce
  then have k: "itemId itemForMod \<in> fst ` set (bucketSpecificAssignments st)"
    using keys by simp
  show ?thesis
    using False f keys
      modsPlaced_pushAssigned[OF d mem k, of m]
      modsPlaced_pushUnassigned[OF d mem k, of m]
    by (simp add: divideMod_def keys_pushAssigned keys_pushUnassigned)
qed


lemma divideMods_conserves_foldl:
  assumes d: "distinct (map itemId items)"
      and keys: "fst ` set (bucketSpecificAssignments st) = itemId ` set items"
      and target: "\<forall>m \<in> set mods.
                   plugCategoryHash (plug m) \<noteq> armor2General K \<and>
                   plugCategoryHash (plug m) \<notin> set (combatCompatiblePlugCategoryHashes K) \<and>
                   plugCategoryHash (plug m) \<notin> set (activityModPlugCategoryHashes K) \<longrightarrow>
                   (\<exists>item \<in> set items.
                      Some (plugCategoryHash (plug m)) = bucketsToCategories K (bucketHash item))"
  shows "mset (generalMods (foldl (divideMod K defs tier lock items) st mods)) +
         mset (combatMods (foldl (divideMod K defs tier lock items) st mods)) +
         mset (activityMods (foldl (divideMod K defs tier lock items) st mods)) +
         modsPlaced (bucketSpecificAssignments (foldl (divideMod K defs tier lock items) st mods))
           items =
         mset (generalMods st) + mset (combatMods st) + mset (activityMods st) +
         modsPlaced (bucketSpecificAssignments st) items + mset mods"
  using keys target
proof (induction mods arbitrary: st)
  case Nil
  then show ?case by simp
next
  case (Cons m mods)
  have t: "plugCategoryHash (plug m) \<noteq> armor2General K \<and>
           plugCategoryHash (plug m) \<notin> set (combatCompatiblePlugCategoryHashes K) \<and>
           plugCategoryHash (plug m) \<notin> set (activityModPlugCategoryHashes K) \<longrightarrow>
           (\<exists>item \<in> set items.
              Some (plugCategoryHash (plug m)) = bucketsToCategories K (bucketHash item))"
    using Cons.prems(2) by simp
  note step = divideMod_conserves[OF d Cons.prems(1) t, of defs tier lock]
  have rest: "\<forall>m \<in> set mods.
                   plugCategoryHash (plug m) \<noteq> armor2General K \<and>
                   plugCategoryHash (plug m) \<notin> set (combatCompatiblePlugCategoryHashes K) \<and>
                   plugCategoryHash (plug m) \<notin> set (activityModPlugCategoryHashes K) \<longrightarrow>
                   (\<exists>item \<in> set items.
                      Some (plugCategoryHash (plug m)) = bucketsToCategories K (bucketHash item))"
    using Cons.prems(2) by simp
  from Cons.IH[OF step[THEN conjunct1] rest] step[THEN conjunct2]
  show ?case by simp
qed

lemma divideMods_conserves:
  assumes "distinct (map itemId items)"
      and "\<forall>m \<in> set mods.
                   plugCategoryHash (plug m) \<noteq> armor2General K \<and>
                   plugCategoryHash (plug m) \<notin> set (combatCompatiblePlugCategoryHashes K) \<and>
                   plugCategoryHash (plug m) \<notin> set (activityModPlugCategoryHashes K) \<longrightarrow>
                   (\<exists>item \<in> set items.
                      Some (plugCategoryHash (plug m)) = bucketsToCategories K (bucketHash item))"
  shows "mset (generalMods (divideMods K defs tier lock items mods)) +
         mset (combatMods (divideMods K defs tier lock items mods)) +
         mset (activityMods (divideMods K defs tier lock items mods)) +
         modsPlaced (bucketSpecificAssignments (divideMods K defs tier lock items mods)) items =
         mset mods"
  unfolding divideMods_def
  using divideMods_conserves_foldl[OF assms(1) _ assms(2), of
      "\<lparr> generalMods = [], combatMods = [], activityMods = [],
         bucketSpecificAssignments = initAssignments items \<rparr>" defs tier lock]
  by (simp add: keys_initAssignments modsPlaced_initAssignments)

section \<open>Conservation in the search\<close>

lemma update_fresh: "k \<notin> fst ` set al \<Longrightarrow> AList.update k v al = al @ [(k, v)]"
  by (induction al) auto

lemma candidates_step:
  "mset (List.map_filter id (take (Suc n) (drop i p))) =
     mset (List.map_filter id [permutationAt p i]) +
     mset (List.map_filter id (take n (drop (Suc i) p)))"
proof (cases "i < length p")
  case True
  then have "drop i p = p ! i # drop (Suc i) p" by (simp add: Cons_nth_drop_Suc)
  then show ?thesis using True
    by (cases "p ! i") (simp_all add: permutationAt_def List.map_filter_simps)
next
  case False
  then show ?thesis by (simp add: permutationAt_def List.map_filter_simps)
qed

lemma evalSlot_mset:
  "mset (assigned (evalSlot K e md a c g)) + mset (unassigned (evalSlot K e md a c g)) =
     mset (List.map_filter id [a, c, g])"
  by (cases a; cases c; cases g) (simp_all add: evalSlot_def Let_def List.map_filter_simps)

lemma evalSlotChecked_mset:
  assumes "evalSlotChecked K eo md a c g = Inr r"
  shows "mset (assigned r) + mset (unassigned r) = mset (List.map_filter id [a, c, g])"
  using assms evalSlot_mset[of K _ md a c g]
  by (auto simp: evalSlotChecked_def List.map_filter_simps split: option.splits if_splits)


lemma slotLoop_result:
  assumes "slotLoop K ie sm ap cp gp b items i cnt asg = Inr (Some (cnt', asg'))"
      and "distinct (map itemId items)"
      and "itemId ` set items \<inter> fst ` set asg = {}"
  shows "\<exists>rs. length rs = length items \<and>
           asg' = asg @ zip (map itemId items) rs \<and>
           cnt' = cnt + (\<Sum>r\<leftarrow>rs. length (unassigned r)) \<and>
           (\<Sum>r\<leftarrow>rs. mset (assigned r) + mset (unassigned r)) =
             mset (List.map_filter id (take (length items) (drop i ap))) +
             mset (List.map_filter id (take (length items) (drop i cp))) +
             mset (List.map_filter id (take (length items) (drop i gp)))"
  using assms
proof (induction items arbitrary: i cnt asg)
  case Nil
  then show ?case by (simp add: List.map_filter_simps)
next
  case (Cons item rest)
  from Cons.prems(1) obtain r0 where
    e: "evalSlotChecked K (ie (itemId item)) (socketMetadataAt sm (itemId item))
          (permutationAt ap i) (permutationAt cp i) (permutationAt gp i) = Inr r0"
    and l: "slotLoop K ie sm ap cp gp b rest (Suc i) (cnt + length (unassigned r0))
              (AList.update (itemId item) r0 asg) = Inr (Some (cnt', asg'))"
    by (auto split: sum.splits if_splits)
  have fresh: "itemId item \<notin> fst ` set asg" using Cons.prems(3) by auto
  then have u: "AList.update (itemId item) r0 asg = asg @ [(itemId item, r0)]"
    by (rule update_fresh)
  have d: "distinct (map itemId rest)" using Cons.prems(2) by simp
  have disj: "itemId ` set rest \<inter> fst ` set (AList.update (itemId item) r0 asg) = {}"
    using Cons.prems(2,3) by (auto simp: u)
  from Cons.IH[OF l d disj] obtain rs where
    rs: "length rs = length rest"
      "asg' = AList.update (itemId item) r0 asg @ zip (map itemId rest) rs"
      "cnt' = cnt + length (unassigned r0) + (\<Sum>r\<leftarrow>rs. length (unassigned r))"
      "(\<Sum>r\<leftarrow>rs. mset (assigned r) + mset (unassigned r)) =
             mset (List.map_filter id (take (length rest) (drop (Suc i) ap))) +
             mset (List.map_filter id (take (length rest) (drop (Suc i) cp))) +
             mset (List.map_filter id (take (length rest) (drop (Suc i) gp)))"
    by blast
  have m0: "mset (assigned r0) + mset (unassigned r0) =
              mset (List.map_filter id [permutationAt ap i]) +
              mset (List.map_filter id [permutationAt cp i]) +
              mset (List.map_filter id [permutationAt gp i])"
    using evalSlotChecked_mset[OF e]
    by (cases "permutationAt ap i"; cases "permutationAt cp i"; cases "permutationAt gp i")
       (simp_all add: List.map_filter_simps)
  have "length (r0 # rs) = length (item # rest) \<and>
        asg' = asg @ zip (map itemId (item # rest)) (r0 # rs) \<and>
        cnt' = cnt + (\<Sum>r\<leftarrow>r0 # rs. length (unassigned r)) \<and>
        (\<Sum>r\<leftarrow>r0 # rs. mset (assigned r) + mset (unassigned r)) =
             mset (List.map_filter id (take (length (item # rest)) (drop i ap))) +
             mset (List.map_filter id (take (length (item # rest)) (drop i cp))) +
             mset (List.map_filter id (take (length (item # rest)) (drop i gp)))"
    using rs m0 by (simp add: u candidates_step del: drop_Suc take_Suc)
  then show ?case by blast
qed

lemma modsPlaced_zip:
  assumes "distinct (map itemId items)" "length rs = length items"
  shows "modsPlaced (zip (map itemId items) rs) items =
           (\<Sum>r\<leftarrow>rs. mset (assigned r) + mset (unassigned r))"
  using assms
proof (induction items arbitrary: rs)
  case Nil
  then show ?case by (simp add: modsPlaced_def)
next
  case (Cons item rest)
  then obtain r rs' where rs: "rs = r # rs'" by (cases rs) auto
  have d: "distinct (map itemId rest)" "length rs' = length rest"
    using Cons.prems rs by simp_all
  have n: "\<forall>x \<in> set rest. itemId x \<noteq> itemId item" using Cons.prems(1)
    by (metis distinct.simps(2) image_eqI list.simps(9) set_map)
  have "(\<Sum>x\<leftarrow>rest. mset (assignedAt ((itemId item, r) # zip (map itemId rest) rs') (itemId x)) +
                   mset (unassignedAt ((itemId item, r) # zip (map itemId rest) rs') (itemId x))) =
        (\<Sum>x\<leftarrow>rest. mset (assignedAt (zip (map itemId rest) rs') (itemId x)) +
                   mset (unassignedAt (zip (map itemId rest) rs') (itemId x)))"
    by (intro arg_cong[where f = sum_list] map_cong)
       (use n in \<open>auto simp: assignedAt_def unassignedAt_def\<close>)
  then show ?case
    using Cons.IH[OF d] by (simp add: rs modsPlaced_def assignedAt_def unassignedAt_def)
qed

lemma slotLoop_complete:
  assumes "\<forall>item \<in> set items. \<exists>e. ie (itemId item) = Some e"
      and "cnt + size (mset (List.map_filter id (take (length items) (drop i ap))) +
                       mset (List.map_filter id (take (length items) (drop i cp))) +
                       mset (List.map_filter id (take (length items) (drop i gp)))) \<le> b"
  shows "\<exists>cnt' asg'. slotLoop K ie sm ap cp gp b items i cnt asg = Inr (Some (cnt', asg'))"
  using assms
proof (induction items arbitrary: i cnt asg)
  case Nil
  then show ?case by simp
next
  case (Cons item rest)
  then obtain e where "ie (itemId item) = Some e" by auto
  then obtain r0 where
    e: "evalSlotChecked K (ie (itemId item)) (socketMetadataAt sm (itemId item))
          (permutationAt ap i) (permutationAt cp i) (permutationAt gp i) = Inr r0"
    by (simp add: evalSlotChecked_def)
  define h where "h p = size (mset (List.map_filter id [permutationAt p i]))"
    for p :: "PluggableInventoryItemDefinition option list"
  define t where
    "t p = size (mset (List.map_filter id (take (length rest) (drop (Suc i) p))))"
    for p :: "PluggableInventoryItemDefinition option list"
  define w where
    "w p = size (mset (List.map_filter id (take (length (item # rest)) (drop i p))))"
    for p :: "PluggableInventoryItemDefinition option list"
  have "size (mset (assigned r0) + mset (unassigned r0)) =
          size (mset (List.map_filter id [permutationAt ap i]) +
                mset (List.map_filter id [permutationAt cp i]) +
                mset (List.map_filter id [permutationAt gp i]))"
    using evalSlotChecked_mset[OF e]
    by (cases "permutationAt ap i"; cases "permutationAt cp i"; cases "permutationAt gp i")
       (simp_all add: List.map_filter_simps)
  then have "length (assigned r0) + length (unassigned r0) = h ap + h cp + h gp"
    by (simp only: size_union size_mset h_def)
  then have le: "length (unassigned r0) \<le> h ap + h cp + h gp"
    by linarith
  have split: "w p = h p + t p" for p
  proof -
    have "size (mset (List.map_filter id (take (Suc (length rest)) (drop i p)))) =
          size (mset (List.map_filter id [permutationAt p i]) +
                mset (List.map_filter id (take (length rest) (drop (Suc i) p))))"
      by (simp only: candidates_step)
    then show ?thesis by (simp only: size_union w_def h_def t_def length_Cons)
  qed
  have p2: "cnt + (w ap + w cp + w gp) \<le> b"
    using Cons.prems(2) by (simp only: size_union w_def)
  have "cnt + length (unassigned r0) + (t ap + t cp + t gp) \<le> b"
    using p2 le split[of ap] split[of cp] split[of gp] by linarith
  then have bound: "cnt + length (unassigned r0) +
          size (mset (List.map_filter id (take (length rest) (drop (Suc i) ap))) +
                mset (List.map_filter id (take (length rest) (drop (Suc i) cp))) +
                mset (List.map_filter id (take (length rest) (drop (Suc i) gp)))) \<le> b"
    by (simp only: size_union t_def)
  then have na: "\<not> cnt + length (unassigned r0) > b" by simp
  have r: "\<forall>item \<in> set rest. \<exists>e. ie (itemId item) = Some e" using Cons.prems(1) by simp
  from Cons.IH[OF r bound] show ?case using e na by simp
qed


lemma slotLoop_placed:
  assumes run: "slotLoop K ie sm ap cp gp b items 0 0 [] = Inr (Some (cnt, asg))"
      and d: "distinct (map itemId items)"
  shows "modsPlaced asg items =
           mset (List.map_filter id (take (length items) ap)) +
           mset (List.map_filter id (take (length items) cp)) +
           mset (List.map_filter id (take (length items) gp)) \<and>
         cnt \<le> size (modsPlaced asg items)"
proof -
  from slotLoop_result[OF run d] obtain rs where
    rs: "length rs = length items" "asg = zip (map itemId items) rs"
      "cnt = (\<Sum>r\<leftarrow>rs. length (unassigned r))"
      "(\<Sum>r\<leftarrow>rs. mset (assigned r) + mset (unassigned r)) =
             mset (List.map_filter id (take (length items) ap)) +
             mset (List.map_filter id (take (length items) cp)) +
             mset (List.map_filter id (take (length items) gp))"
    by auto
  have p: "modsPlaced asg items = (\<Sum>r\<leftarrow>rs. mset (assigned r) + mset (unassigned r))"
    using modsPlaced_zip[OF d rs(1)] rs(2) by simp
  have "(\<Sum>r\<leftarrow>rs. length (unassigned r)) \<le>
          (\<Sum>r\<leftarrow>rs. size (mset (assigned r) + mset (unassigned r)))"
    by (rule sum_list_mono) simp
  also have "\<dots> = size (\<Sum>r\<leftarrow>rs. mset (assigned r) + mset (unassigned r))"
    by (induction rs) simp_all
  finally have "cnt \<le> size (modsPlaced asg items)" using rs(3) p by simp
  with p rs(4) show ?thesis by simp
qed

lemma tripleStep_placed:
  assumes d: "distinct (map itemId items)"
      and c: "mset (List.map_filter id (take (length items) ap)) +
              mset (List.map_filter id (take (length items) cp)) +
              mset (List.map_filter id (take (length items) gp)) = T"
      and run: "tripleStep K ie sm items ap cp best gp = Inr best'"
  shows "best' = best \<or>
         (modsPlaced (bucketIndependentAssignments best') items = T \<and>
          assignmentUnassignedModCount best' \<le> size T)"
proof (cases "best' = best")
  case True
  then show ?thesis by simp
next
  case False
  with run obtain cnt where
    l: "slotLoop K ie sm ap cp gp (assignmentUnassignedModCount best) items 0 0 [] =
       Inr (Some (cnt, bucketIndependentAssignments best'))"
    and n: "assignmentUnassignedModCount best' = cnt"
    by (auto simp: tripleStep_def split: sum.splits option.splits if_splits)
  from slotLoop_placed[OF l d] c n show ?thesis by auto
qed

lemma tripleStep_first:
  assumes d: "distinct (map itemId items)"
      and ie: "\<forall>item \<in> set items. \<exists>e. ie (itemId item) = Some e"
      and c: "mset (List.map_filter id (take (length items) ap)) +
              mset (List.map_filter id (take (length items) cp)) +
              mset (List.map_filter id (take (length items) gp)) = T"
      and small: "size T < assignmentUnassignedModCount best"
      and run: "tripleStep K ie sm items ap cp best gp = Inr best'"
  shows "modsPlaced (bucketIndependentAssignments best') items = T \<and>
         assignmentUnassignedModCount best' \<le> size T"
proof -
  have "0 + size (mset (List.map_filter id (take (length items) (drop 0 ap))) +
                  mset (List.map_filter id (take (length items) (drop 0 cp))) +
                  mset (List.map_filter id (take (length items) (drop 0 gp))))
          \<le> assignmentUnassignedModCount best"
    using c small by simp
  from slotLoop_complete[OF ie this] obtain cnt asg where
    l: "slotLoop K ie sm ap cp gp (assignmentUnassignedModCount best) items 0 0 [] =
          Inr (Some (cnt, asg))"
    by blast
  from slotLoop_placed[OF l d] c have p: "modsPlaced asg items = T" "cnt \<le> size T"
    by auto
  then have "cnt < assignmentUnassignedModCount best" using small by simp
  then have "\<And>v. isImprovement cnt v best" by (simp add: isImprovement_def)
  with run l have "bucketIndependentAssignments best' = asg \<and>
                   assignmentUnassignedModCount best' = cnt"
    by (auto simp: tripleStep_def split: sum.splits)
  with p show ?thesis by simp
qed

lemma allTriples_nonempty:
  assumes "aps \<noteq> []" "cps \<noteq> []" "gps \<noteq> []"
  shows "allTriples aps cps gps \<noteq> []"
proof -
  obtain ap cp gp where "ap \<in> set aps" "cp \<in> set cps" "gp \<in> set gps"
    using assms by (meson last_in_set)
  then have "(ap, cp, gp) \<in> set (allTriples aps cps gps)" by (simp add: set_allTriples)
  then show ?thesis by auto
qed

lemma activityLoop_placed:
  assumes d: "distinct (map itemId items)"
      and ie: "\<forall>item \<in> set items. \<exists>e. ie (itemId item) = Some e"
      and ca: "\<forall>p \<in> set aps. mset (List.map_filter id (take (length items) p)) = A"
      and cc: "\<forall>p \<in> set cps. mset (List.map_filter id (take (length items) p)) = C"
      and cg: "\<forall>p \<in> set gps. mset (List.map_filter id (take (length items) p)) = G"
      and ne: "aps \<noteq> []" "cps \<noteq> []" "gps \<noteq> []"
      and small: "size (A + C + G) < assignmentUnassignedModCount best"
      and run: "activityLoop K ie sm items aps cps gps best = Inr best'"
  shows "modsPlaced (bucketIndependentAssignments best') items = A + C + G"
proof -
  let ?body = "\<lambda>b (ap, cp, gp). tripleStep K ie sm items ap cp b gp"
  let ?Inv = "\<lambda>s. modsPlaced (bucketIndependentAssignments s) items = A + C + G \<and>
                 assignmentUnassignedModCount s \<le> size (A + C + G)"
  have con: "mset (List.map_filter id (take (length items) ap)) +
             mset (List.map_filter id (take (length items) cp)) +
             mset (List.map_filter id (take (length items) gp)) = A + C + G"
    if "(ap, cp, gp) \<in> set (allTriples aps cps gps)" for ap cp gp
    using that ca cc cg by (simp add: set_allTriples)
  obtain t ts where tts: "allTriples aps cps gps = t # ts"
    using allTriples_nonempty[OF ne] by (cases "allTriples aps cps gps") auto
  obtain ap cp gp where t: "t = (ap, cp, gp)" by (cases t) auto
  have f: "forEach ?body best (t # ts) = Inr best'"
    using run by (simp add: activityLoop_triples tts)
  then obtain s1 where s1: "tripleStep K ie sm items ap cp best gp = Inr s1"
    and rest: "forEach ?body s1 ts = Inr best'"
    by (auto simp: t split: sum.splits)
  have "(ap, cp, gp) \<in> set (allTriples aps cps gps)" by (simp add: tts t)
  from tripleStep_first[OF d ie con[OF this] small s1] have i1: "?Inv s1" .
  have "?Inv best'"
  proof (rule forEach_invariant[OF rest, where P = ?Inv, OF i1])
    fix u x u'
    assume x: "x \<in> set ts" and iu: "?Inv u" and st: "?body u x = Inr u'"
    obtain ap' cp' gp' where xe: "x = (ap', cp', gp')" by (cases x) auto
    with x have m: "(ap', cp', gp') \<in> set (allTriples aps cps gps)" by (simp add: tts)
    from st xe have "tripleStep K ie sm items ap' cp' u gp' = Inr u'" by simp
    from tripleStep_placed[OF d con[OF m] this] iu show "?Inv u'" by auto
  qed
  then show ?thesis by simp
qed

section \<open>Conservation in the merge\<close>

lemma mergeResults_fst_foldl:
  assumes "distinct (map itemId items)" "itemId ` set items \<inter> fst ` set (fst acc) = {}"
  shows "fst (foldl (mergeItem independent specific) acc items) =
           fst acc @ map (\<lambda>item. (itemId item,
                                   assignedAt independent (itemId item) @
                                   assignedAt specific (itemId item))) items"
  using assms
proof (induction items arbitrary: acc)
  case Nil
  then show ?case by simp
next
  case (Cons a items)
  have fresh: "itemId a \<notin> fst ` set (fst acc)" using Cons.prems(2) by auto
  have e: "fst (mergeItem independent specific acc a) =
             fst acc @ [(itemId a, assignedAt independent (itemId a) @
                                  assignedAt specific (itemId a))]"
    by (simp add: mergeItem_def update_fresh[OF fresh])
  have d: "distinct (map itemId items)" using Cons.prems(1) by simp
  have "itemId a \<notin> itemId ` set items" using Cons.prems(1) by simp
  then have disj: "itemId ` set items \<inter>
                     fst ` set (fst (mergeItem independent specific acc a)) = {}"
    using Cons.prems(2) by (auto simp: e)
  from Cons.IH[OF d disj] show ?case by (simp add: e)
qed

lemma mergeResults_mset:
  assumes "distinct (map itemId items)"
  shows "mset (concat (map snd (fst (mergeResults items independent specific)))) +
         mset (snd (mergeResults items independent specific)) =
           modsPlaced independent items + modsPlaced specific items"
proof -
  have f: "fst (mergeResults items independent specific) =
             map (\<lambda>item. (itemId item, assignedAt independent (itemId item) @
                                        assignedAt specific (itemId item))) items"
    using mergeResults_fst_foldl[OF assms, of "([], [])" independent specific]
    by (simp add: mergeResults_def)
  show ?thesis
    unfolding f mergeResults_unassigned modsPlaced_def
    by (induction items) (simp_all add: mset_concat)
qed


text \<open>
  C2, as the code has it. Let the items have pairwise distinct ids, let every mod
  outside the three shared pools belong to the bucket of some item, let the permutation
  generator return, for each shared pool, at least one permutation, each of which holds
  exactly the mods of the pool within the positions of the items, and let there be fewer
  than 10000 mods. Then the function returns a result whose assigned lists and unassigned
  list together hold exactly the input mods, each as often as the input does; in
  particular the numbers of mods agree.
\<close>

theorem conservation:
  assumes dist: "distinct (map itemId items)"
      and target: "\<forall>m \<in> set mods.
                   plugCategoryHash (plug m) \<noteq> armor2General K \<and>
                   plugCategoryHash (plug m) \<notin> set (combatCompatiblePlugCategoryHashes K) \<and>
                   plugCategoryHash (plug m) \<notin> set (activityModPlugCategoryHashes K) \<longrightarrow>
                   (\<exists>item \<in> set items.
                      Some (plugCategoryHash (plug m)) = bucketsToCategories K (bucketHash item))"
      and gen: "\<forall>pool \<in> {activityMods (divideMods K d tier lock items mods),
                          combatMods (divideMods K d tier lock items mods),
                          generalMods (divideMods K d tier lock items mods)}.
                  generateModPermutations K pool \<noteq> [] \<and>
                  (\<forall>p \<in> set (generateModPermutations K pool).
                     mset (List.map_filter id (take (length items) p)) = mset pool)"
      and small: "length mods < 10000"
  shows "\<exists>res. getCheapestModAssignments K items mods (Some d) tier lock = Inr res \<and>
           mset (concat (map snd (fst res))) + mset (snd res) = mset mods \<and>
           length (concat (map snd (fst res))) + length (snd res) = length mods"
proof -
  let ?P = "divideMods K d tier lock items mods"
  let ?bs = "bucketSpecificAssignments ?P"
  let ?ie = "itemEnergiesOf K d tier lock items ?bs"
  obtain best where
    b: "searchBest K d tier lock items ?P = Inr best"
    and g: "getCheapestModAssignments K items mods (Some d) tier lock =
       Inr (mergeResults items (bucketIndependentAssignments best) ?bs)"
    using getCheapestModAssignments_Some[of K d tier lock items mods] by blast
  have part: "mset (generalMods ?P) + mset (combatMods ?P) + mset (activityMods ?P) +
              modsPlaced ?bs items = mset mods"
    by (rule divideMods_conserves[OF dist target])
  then have "size (mset (generalMods ?P) + mset (combatMods ?P) + mset (activityMods ?P) +
              modsPlaced ?bs items) = length mods"
    by simp
  then have sz: "size (mset (activityMods ?P) + mset (combatMods ?P) + mset (generalMods ?P))
                   < assignmentUnassignedModCount (initialState items)"
    using small by (simp add: initialState_def)
  have ie: "\<forall>item \<in> set items. \<exists>e. ?ie (itemId item) = Some e"
  proof
    fix item assume "item \<in> set items"
    then show "\<exists>e. ?ie (itemId item) = Some e" by (rule itemEnergiesOf_defined)
  qed
  have placed: "modsPlaced (bucketIndependentAssignments best) items =
          mset (activityMods ?P) + mset (combatMods ?P) + mset (generalMods ?P)"
    by (rule activityLoop_placed[OF dist ie _ _ _ _ _ _ sz b[unfolded searchBest_def]])
       (use gen in simp_all)
  let ?res = "mergeResults items (bucketIndependentAssignments best) ?bs"
  have m: "mset (concat (map snd (fst ?res))) + mset (snd ?res) = mset mods"
    using mergeResults_mset[OF dist, of "bucketIndependentAssignments best" ?bs] placed part
    by (simp add: ac_simps)
  then have "size (mset (concat (map snd (fst ?res))) + mset (snd ?res)) = size (mset mods)"
    by simp
  then have "length (concat (map snd (fst ?res))) + length (snd ?res) = length mods"
    by (simp only: size_union size_mset)
  with g m show ?thesis by blast
qed

text \<open>
  A helmet and a chest piece with a helmet mod, a chest mod, an activity mod and a
  general mod: the four mods are in the result, the activity mod as unassigned.
\<close>

theorem conservation_witness:
  "distinct (map itemId [helmet, chest]) \<and>
   length [mkMod 101 4 1 Any, mkMod 108 5 8 Any, mkMod 102 3 4 Any, mkMod 100 1 4 Any] < 10000 \<and>
   getCheapestModAssignments exampleCollaborators [helmet, chest]
     [mkMod 101 4 1 Any, mkMod 108 5 8 Any, mkMod 102 3 4 Any, mkMod 100 1 4 Any]
     (Some ()) 0 False =
     Inr ([(''helmet'', [mkMod 100 1 4 Any, mkMod 101 4 1 Any]), (''chest'', [mkMod 108 5 8 Any])],
          [mkMod 102 3 4 Any]) \<and>
   mset (concat (map snd [(''helmet'', [mkMod 100 1 4 Any, mkMod 101 4 1 Any]),
                          (''chest'', [mkMod 108 5 8 Any])])) + mset [mkMod 102 3 4 Any] =
     mset [mkMod 101 4 1 Any, mkMod 108 5 8 Any, mkMod 102 3 4 Any, mkMod 100 1 4 Any]"
proof -
  let ?mods = "[mkMod 101 4 1 Any, mkMod 108 5 8 Any, mkMod 102 3 4 Any, mkMod 100 1 4 Any]"
  let ?P = "divideMods exampleCollaborators () 0 False [helmet, chest] ?mods"
  have h1: "distinct (map itemId [helmet, chest])"
    by (simp add: helmet_def chest_def)
  have h2: "\<forall>m \<in> set ?mods.
              plugCategoryHash (plug m) \<noteq> armor2General exampleCollaborators \<and>
              plugCategoryHash (plug m) \<notin> set (combatCompatiblePlugCategoryHashes exampleCollaborators) \<and>
              plugCategoryHash (plug m) \<notin> set (activityModPlugCategoryHashes exampleCollaborators) \<longrightarrow>
              (\<exists>item \<in> set [helmet, chest].
                 Some (plugCategoryHash (plug m)) =
                   bucketsToCategories exampleCollaborators (bucketHash item))"
    by (simp add: exampleCollaborators_def mkMod_def helmet_def chest_def)
  have pa: "activityMods ?P = [mkMod 102 3 4 Any]" by code_simp
  have pc: "combatMods ?P = []" by code_simp
  have pg: "generalMods ?P = [mkMod 100 1 4 Any]" by code_simp
  have h3: "\<forall>pool \<in> {activityMods ?P, combatMods ?P, generalMods ?P}.
                  generateModPermutations exampleCollaborators pool \<noteq> [] \<and>
                  (\<forall>p \<in> set (generateModPermutations exampleCollaborators pool).
                     mset (List.map_filter id (take (length [helmet, chest]) p)) = mset pool)"
    unfolding pa pc pg by (simp add: exampleCollaborators_def List.map_filter_simps)
  have h4: "length ?mods < 10000" by simp
  have g: "getCheapestModAssignments exampleCollaborators [helmet, chest] ?mods (Some ()) 0 False =
     Inr ([(''helmet'', [mkMod 100 1 4 Any, mkMod 101 4 1 Any]), (''chest'', [mkMod 108 5 8 Any])],
          [mkMod 102 3 4 Any])"
    by code_simp
  from conservation [OF h1 h2 h3 h4] g
  have "mset (concat (map snd [(''helmet'', [mkMod 100 1 4 Any, mkMod 101 4 1 Any]),
                          (''chest'', [mkMod 108 5 8 Any])])) + mset [mkMod 102 3 4 Any] =
     mset ?mods"
    by auto
  with h1 h4 g show ?thesis by blast
qed

text \<open>
  The claim as stated fails: a leg mod (plug category 6) with only a helmet in the set
  has no item to go to, and the result holds it neither as assigned nor as unassigned.
\<close>

theorem conservation_counterexample:
  "getCheapestModAssignments exampleCollaborators [helmet] [mkMod 103 6 2 Any] (Some ()) 0 False =
     Inr ([(''helmet'', [])], []) \<and>
   length [mkMod 103 6 2 Any] \<noteq>
     length (concat (map snd [(''helmet'', ([] :: PluggableInventoryItemDefinition list))])) +
     length ([] :: PluggableInventoryItemDefinition list)"
  by code_simp

text \<open>
  The positions matter as well: with a helmet alone, the second permutation of the
  example generator holds the general mod at the second position, which no item has.
  That triple counts no unassigned mod and costs less, so it wins, and the general mod
  is in neither list of the result.
\<close>

lemma conservation_needs_positions:
  "getCheapestModAssignments exampleCollaborators [helmet]
     [mkMod 101 4 3 Any, mkMod 100 1 4 Any] (Some ()) 0 False =
     Inr ([(''helmet'', [mkMod 101 4 3 Any])], [])"
  by code_simp

end
